theory Spec2Isabelle
  imports
    Main
    "HOL-Library.AList"
    "HOL-Library.Char_ord"
    "HOL-Library.List_Lexorder"
    "HOL-Library.Multiset"
begin

section \<open>JavaScript values\<close>

text \<open>
  The values the cache stores and the upstream returns are JavaScript values. Numbers are
  modelled as integers (timestamps, lifetimes and counters of this program are integers
  far below \<open>2^53\<close>, where the double arithmetic of JavaScript is exact); strings are
  lists of 8-bit characters, read as the code units \<open>0\<close> to \<open>255\<close> (Latin-1). An object is the list of its own enumerable properties in
  enumeration order. Messages written with \<open>console.log\<close> are not modelled.
\<close>

datatype jsval =
    JUndefined
  | JNull
  | JBool bool
  | JNum int
  | JStr string
  | JArr "jsval list"
  | JObj "(string \<times> jsval) list"

text \<open>Truthiness, as \<open>if (v)\<close>, \<open>!v\<close>, \<open>a || b\<close> and \<open>a && b\<close> test it.\<close>

fun truthy :: "jsval \<Rightarrow> bool" where
  "truthy JUndefined = False"
| "truthy JNull = False"
| "truthy (JBool b) = b"
| "truthy (JNum n) = (n \<noteq> 0)"
| "truthy (JStr s) = (s \<noteq> [])"
| "truthy (JArr xs) = True"
| "truthy (JObj ps) = True"

section \<open>cache-service.js\<close>

subsection \<open>State\<close>

text \<open>
  \<open>const cache = new Map()\<close> keeps its entries in insertion order, with unique keys:
  it is an association list in which \<open>Map.set\<close> replaces the value of a present key
  in place and appends an absent one (\<open>AList.update\<close>), \<open>Map.delete\<close> removes the
  key (\<open>AList.delete\<close>) and \<open>Map.get\<close> is \<open>map_of\<close>. The four counters of
  \<open>stats\<close> live beside it.
\<close>

record entry =
  data :: jsval
  createdAt :: int
  expiresAt :: int
  ttl :: int

record cache_state =
  store :: "(string \<times> entry) list"
  hits :: nat
  misses :: nat
  sets :: nat
  evictions :: nat

definition MAX_CACHE_SIZE :: nat where
  "MAX_CACHE_SIZE = 1000"

definition empty_cache :: cache_state where
  "empty_cache = \<lparr>store = [], hits = 0, misses = 0, sets = 0, evictions = 0\<rparr>"

text \<open>\<open>cache.size\<close>, which \<open>getStats().size\<close> reports.\<close>

definition cache_size :: "cache_state \<Rightarrow> nat" where
  "cache_size c = length (store c)"

subsection \<open>Operations\<close>

text \<open>
  Every operation takes the state and returns its result with the state it leaves. The
  argument \<open>now\<close> is the value \<open>Date.now()\<close> has when the operation runs.
  \<open>get\<close> returns \<open>null\<close> for a key that is absent or expired.
\<close>

definition get :: "string \<Rightarrow> int \<Rightarrow> cache_state \<Rightarrow> jsval \<times> cache_state" where
  "get key now c =
     (case map_of (store c) key of
        None \<Rightarrow> (JNull, c\<lparr>misses := misses c + 1\<rparr>)
      | Some item \<Rightarrow>
          if expiresAt item < now
          then (JNull, c\<lparr>store := AList.delete key (store c), misses := misses c + 1\<rparr>)
          else (data item, c\<lparr>hits := hits c + 1\<rparr>))"

definition has :: "string \<Rightarrow> int \<Rightarrow> cache_state \<Rightarrow> bool \<times> cache_state" where
  "has key now c =
     (case map_of (store c) key of
        None \<Rightarrow> (False, c)
      | Some item \<Rightarrow>
          if expiresAt item < now
          then (False, c\<lparr>store := AList.delete key (store c)\<rparr>)
          else (True, c))"

definition del :: "string \<Rightarrow> cache_state \<Rightarrow> bool \<times> cache_state" where
  "del key c = (map_of (store c) key \<noteq> None, c\<lparr>store := AList.delete key (store c)\<rparr>)"

definition clear :: "cache_state \<Rightarrow> cache_state" where
  "clear c = c\<lparr>store := []\<rparr>"

text \<open>
  \<open>Math.ceil(MAX_CACHE_SIZE * 0.1)\<close>: the double product \<open>1000 * 0.1\<close> is exactly
  \<open>100\<close>, so the ceiling is that of the exact tenth.
\<close>

definition itemsToRemove :: nat where
  "itemsToRemove = (MAX_CACHE_SIZE + 9) div 10"

text \<open>
  The loop of \<open>evictOldest\<close>:
  \<^verbatim>\<open>for (let i = 0; i < itemsToRemove && i < entries.length; i++) {
    cache.delete(entries[i][0]); stats.evictions++; }\<close>
\<close>

function evict_loop :: "(string \<times> entry) list \<Rightarrow> nat \<Rightarrow> cache_state \<Rightarrow> cache_state" where
  "evict_loop entries i c =
     (if i < itemsToRemove \<and> i < length entries
      then evict_loop entries (Suc i)
             (c\<lparr>store := AList.delete (fst (entries ! i)) (store c),
                evictions := evictions c + 1\<rparr>)
      else c)"
  by pat_completeness auto
termination
  by (relation "measure (\<lambda>(entries, i, c). itemsToRemove - i)") auto

declare evict_loop.simps [simp del]

text \<open>
  \<open>entries.sort((a, b) => a[1].createdAt - b[1].createdAt)\<close> is a stable sort by
  creation time, as \<open>sort_key\<close> is.
\<close>

definition evictOldest :: "cache_state \<Rightarrow> cache_state" where
  "evictOldest c = evict_loop (sort_key (\<lambda>e. createdAt (snd e)) (store c)) 0 c"

text \<open>
  \<open>set(key, data, ttlSeconds)\<close>; a caller that leaves \<open>ttlSeconds\<close> out passes
  \<open>3600\<close>. The clock is read after the eviction.
\<close>

definition set_cache :: "string \<Rightarrow> jsval \<Rightarrow> int \<Rightarrow> int \<Rightarrow> cache_state \<Rightarrow> cache_state" where
  "set_cache key d ttlSeconds now c =
     (let c1 = (if cache_size c \<ge> MAX_CACHE_SIZE then evictOldest c else c)
      in c1\<lparr>store := AList.update key
                 \<lparr>data = d, createdAt = now, expiresAt = now + ttlSeconds * 1000,
                  ttl = ttlSeconds\<rparr> (store c1),
             sets := sets c1 + 1\<rparr>)"

text \<open>
  \<open>Math.ceil(remaining / 1000)\<close> for an integer \<open>remaining\<close>, in integer arithmetic.
\<close>

definition ceil_div :: "int \<Rightarrow> int \<Rightarrow> int" where
  "ceil_div a b = - ((- a) div b)"

definition getTTL :: "string \<Rightarrow> int \<Rightarrow> cache_state \<Rightarrow> int \<times> cache_state" where
  "getTTL key now c =
     (case map_of (store c) key of
        None \<Rightarrow> (0, c)
      | Some item \<Rightarrow>
          (let remaining = expiresAt item - now
           in (if remaining > 0 then ceil_div remaining 1000 else 0, c)))"

subsection \<open>Sequences of operations\<close>

text \<open>
  A client of the module calls its operations one after another, each at its own time.
  \<open>run\<close> executes such a sequence from a given state; the module starts with
  \<open>empty_cache\<close>.
\<close>

datatype cache_op =
    OGet string int
  | OSet string jsval int int
  | ODel string
  | OClear
  | OHas string int
  | OGetTTL string int

fun exec_op :: "cache_op \<Rightarrow> cache_state \<Rightarrow> cache_state" where
  "exec_op (OGet key now) c = snd (get key now c)"
| "exec_op (OSet key d ttlSeconds now) c = set_cache key d ttlSeconds now c"
| "exec_op (ODel key) c = snd (del key c)"
| "exec_op OClear c = clear c"
| "exec_op (OHas key now) c = snd (has key now c)"
| "exec_op (OGetTTL key now) c = snd (getTTL key now c)"

fun run :: "cache_op list \<Rightarrow> cache_state \<Rightarrow> cache_state" where
  "run [] c = c"
| "run (x # xs) c = run xs (exec_op x c)"

subsection \<open>Notions used to state the properties\<close>

text \<open>
  The keys of a \<open>Map\<close> are unique. The entries \<open>evictOldest\<close> picks are the first
  \<open>itemsToRemove\<close> of the entries sorted by creation time.
\<close>

definition unique_keys :: "cache_state \<Rightarrow> bool" where
  "unique_keys c = distinct (map fst (store c))"

definition cache_inv :: "cache_state \<Rightarrow> bool" where
  "cache_inv c = (unique_keys c \<and> cache_size c \<le> MAX_CACHE_SIZE)"

definition victims :: "cache_state \<Rightarrow> (string \<times> entry) list" where
  "victims c = take itemsToRemove (sort_key (\<lambda>e. createdAt (snd e)) (store c))"

text \<open>A thousand insertions under a thousand different keys, at times \<open>0, 1, 2, ...\<close>.\<close>

definition fill_op :: "nat \<Rightarrow> cache_op" where
  "fill_op i = OSet (replicate (Suc i) CHR ''k'') JNull 60 (int i)"

definition fill_ops :: "nat \<Rightarrow> cache_op list" where
  "fill_ops n = map fill_op [0..<n]"

definition fill_store :: "nat \<Rightarrow> (string \<times> entry) list" where
  "fill_store n =
     map (\<lambda>i. (replicate (Suc i) CHR ''k'',
               \<lparr>data = JNull, createdAt = int i, expiresAt = int i + 60000, ttl = 60\<rparr>)) [0..<n]"

text \<open>A cache holding one entry, stored at time \<open>0\<close> for one second.\<close>

definition stale_cache :: cache_state where
  "stale_cache =
     \<lparr>store = [(''k'', \<lparr>data = JNum 7, createdAt = 0, expiresAt = 1000, ttl = 1\<rparr>)],
      hits = 0, misses = 0, sets = 1, evictions = 0\<rparr>"

subsection \<open>Cache keys\<close>

text \<open>
  \<open>String(value)\<close>. An array prints its elements separated by commas, with
  \<open>null\<close> and \<open>undefined\<close> elements printed as nothing; an object prints as
  \<open>[object Object]\<close>.
\<close>

fun join :: "string \<Rightarrow> string list \<Rightarrow> string" where
  "join sep [] = []"
| "join sep [x] = x"
| "join sep (x # y # ys) = x @ sep @ join sep (y # ys)"

fun show_nat :: "nat \<Rightarrow> string" where
  "show_nat n =
     (if n < 10 then [''0123456789'' ! n]
      else show_nat (n div 10) @ [''0123456789'' ! (n mod 10)])"

declare show_nat.simps [simp del]

definition show_int :: "int \<Rightarrow> string" where
  "show_int n = (if n < 0 then ''-'' @ show_nat (nat (- n)) else show_nat (nat n))"

fun String :: "jsval \<Rightarrow> string" where
  "String JUndefined = ''undefined''"
| "String JNull = ''null''"
| "String (JBool b) = (if b then ''true'' else ''false'')"
| "String (JNum n) = show_int n"
| "String (JStr s) = s"
| "String (JArr xs) =
     join '','' (map (\<lambda>x. if x = JNull \<or> x = JUndefined then [] else String x) xs)"
| "String (JObj ps) = ''[object Object]''"

text \<open>
  \<open>toLowerCase\<close> and \<open>trim\<close> on the code units \<open>0\<close> to \<open>255\<close>. The upper
  case letters there are \<open>A\<close> to \<open>Z\<close> and \<open>U+00C0\<close> to \<open>U+00DE\<close> without
  the multiplication sign \<open>U+00D7\<close>; each has its lower case letter \<open>0x20\<close>
  above it. The white space \<open>trim\<close> strips there is tab, line feed, vertical tab,
  form feed, carriage return, space and the no-break space \<open>U+00A0\<close>.
\<close>

definition upper_letters :: string where
  "upper_letters =
     ''ABCDEFGHIJKLMNOPQRSTUVWXYZ'' @
       [CHR 0xC0, CHR 0xC1, CHR 0xC2, CHR 0xC3, CHR 0xC4, CHR 0xC5, CHR 0xC6, CHR
        0xC7, CHR 0xC8, CHR 0xC9, CHR 0xCA, CHR 0xCB, CHR 0xCC, CHR 0xCD, CHR 0xCE,
        CHR 0xCF, CHR 0xD0, CHR 0xD1, CHR 0xD2, CHR 0xD3, CHR 0xD4, CHR 0xD5, CHR
        0xD6, CHR 0xD8, CHR 0xD9, CHR 0xDA, CHR 0xDB, CHR 0xDC, CHR 0xDD, CHR 0xDE]"

definition lower_letters :: string where
  "lower_letters =
     ''abcdefghijklmnopqrstuvwxyz'' @
       [CHR 0xE0, CHR 0xE1, CHR 0xE2, CHR 0xE3, CHR 0xE4, CHR 0xE5, CHR 0xE6, CHR
        0xE7, CHR 0xE8, CHR 0xE9, CHR 0xEA, CHR 0xEB, CHR 0xEC, CHR 0xED, CHR 0xEE,
        CHR 0xEF, CHR 0xF0, CHR 0xF1, CHR 0xF2, CHR 0xF3, CHR 0xF4, CHR 0xF5, CHR
        0xF6, CHR 0xF8, CHR 0xF9, CHR 0xFA, CHR 0xFB, CHR 0xFC, CHR 0xFD, CHR 0xFE]"

definition lower_char :: "char \<Rightarrow> char" where
  "lower_char c =
     (case map_of (zip upper_letters lower_letters) c of
        None \<Rightarrow> c
      | Some l \<Rightarrow> l)"

definition toLowerCase :: "string \<Rightarrow> string" where
  "toLowerCase s = map lower_char s"

definition is_space :: "char \<Rightarrow> bool" where
  "is_space c =
     (c \<in> set [CHR 0x09, CHR 0x0A, CHR 0x0B, CHR 0x0C, CHR 0x0D, CHR '' '', CHR 0xA0])"

definition trim :: "string \<Rightarrow> string" where
  "trim s = rev (dropWhile is_space (rev (dropWhile is_space s)))"

text \<open>
  The parameter object is the list of its properties in insertion order, and
  \<open>params[key]\<close> of a missing property is \<open>undefined\<close>. \<open>Object.keys(params).sort()\<close>
  orders the names by code unit, which for the 8-bit characters here is the
  lexicographic order of the strings. The callback of \<open>map\<close> returns \<open>null\<close>
  (\<open>None\<close>) for a value that is \<open>null\<close> or \<open>undefined\<close>, and \<open>filter\<close> drops
  those.
\<close>

definition param_at :: "(string \<times> jsval) list \<Rightarrow> string \<Rightarrow> jsval" where
  "param_at params key = (case map_of params key of None \<Rightarrow> JUndefined | Some v \<Rightarrow> v)"

definition normalizedPart :: "(string \<times> jsval) list \<Rightarrow> string \<Rightarrow> string option" where
  "normalizedPart params key =
     (let v = param_at params key
      in if v = JNull \<or> v = JUndefined then None
         else Some (key @ ''='' @ trim (toLowerCase (String v))))"

definition normalizedParts :: "(string \<times> jsval) list \<Rightarrow> string list" where
  "normalizedParts params =
     map the (filter (\<lambda>part. part \<noteq> None)
       (map (normalizedPart params) (sort (map fst params))))"

definition generateKey :: "string \<Rightarrow> (string \<times> jsval) list \<Rightarrow> string" where
  "generateKey prefix params =
     (let paramsString = join ''_'' (normalizedParts params)
      in if paramsString \<noteq> [] then prefix @ ''_'' @ paramsString else prefix)"

text \<open>
  The key as the specification words it: the parameter names sorted, the parameters
  whose value is \<open>null\<close> or \<open>undefined\<close> skipped, every other value stringified,
  lowercased and trimmed, and written as \<open>key=value\<close>.
\<close>

definition key_value_pairs :: "(string \<times> jsval) list \<Rightarrow> string list" where
  "key_value_pairs params =
     map (\<lambda>k. k @ ''='' @ trim (toLowerCase (String (param_at params k))))
       (filter (\<lambda>k. param_at params k \<noteq> JNull \<and> param_at params k \<noteq> JUndefined)
          (sort (map fst params)))"

section \<open>emdex-service.js\<close>

subsection \<open>Errors\<close>

text \<open>
  An \<open>EmdexError\<close> carries its \<open>code\<close>; its message and \<open>originalError\<close> are
  text for the reader and are left out. Anything else that can be thrown (a rejected
  \<open>fetch\<close>, a \<open>SyntaxError\<close> of \<open>response.json()\<close>) is \<open>OtherError\<close>. Both
  \<open>catch\<close> blocks of the module rethrow an \<open>EmdexError\<close> and wrap anything else as
  \<open>NETWORK_ERROR\<close>.
\<close>

datatype error_code = AUTH_FAILED | REQUEST_FAILED | NETWORK_ERROR

datatype error = EmdexError error_code | OtherError

fun wrap_network :: "error \<Rightarrow> error" where
  "wrap_network (EmdexError code) = EmdexError code"
| "wrap_network OtherError = EmdexError NETWORK_ERROR"

subsection \<open>The environment\<close>

text \<open>
  \<open>fetch\<close> either rejects or resolves to a response with a status and a body; the
  text of a response that has arrived can be read, and \<open>response.json()\<close> throws when
  that text is not JSON (body \<open>None\<close>). The parsed body of a login response is
  either JSON \<open>null\<close>, on which reading \<open>data.token\<close> throws a \<open>TypeError\<close>, or
  any other value, read through the four fields the code looks at, typed as the upstream
  documents them: the tokens are strings and the lifetimes integers, \<open>None\<close> for a
  field that is absent or \<open>null\<close> (all four are absent in a body that is not an
  object).

  The world a call runs in gives the environment variables (\<open>None\<close> for an unset
  one), the flag \<open>USE_MOCK\<close>, the mock transport (its data file is not part of the
  sources, so it is a parameter), and what the outside answers: the outcome of the
  \<open>n\<close>-th login request, the outcome of the \<open>n\<close>-th data request, and the reading of
  the clock at the \<open>n\<close>-th step. Every step of the service that can call
  \<open>Date.now()\<close> (\<open>getToken\<close>, and each call into the cache) takes the next
  reading, whether or not it comes to look at it.
\<close>

datatype 'b fetch_result = Throws | Response int "'b option"

definition ok :: "int \<Rightarrow> bool" where
  "ok status = (200 \<le> status \<and> status \<le> 299)"

record login_data =
  token :: "string option"
  access_token :: "string option"
  expires_in :: "int option"
  expiresIn :: "int option"

datatype login_body = JsonNull | Fields login_data

record world =
  EMDEX_API_URL :: "string option"
  EMDEX_EMAIL :: "string option"
  EMDEX_PASSWORD :: "string option"
  USE_MOCK :: bool
  mockEmdexRequest :: "string \<Rightarrow> (string \<times> jsval) list \<Rightarrow> error + jsval"
  login_fetch :: "nat \<Rightarrow> login_body fetch_result"
  data_fetch :: "nat \<Rightarrow> jsval fetch_result"
  clock :: "nat \<Rightarrow> int"

text \<open>
  The state of the process: the two module variables of the token cache, the response
  cache, and the history so far (how many login requests and data requests were sent,
  how many steps have read the clock).
\<close>

record svc_state =
  cachedToken :: "string option"
  tokenExpiresAt :: "int option"
  cache :: cache_state
  logins :: nat
  requests :: nat
  ticks :: nat

definition Date_now :: "world \<Rightarrow> svc_state \<Rightarrow> int" where
  "Date_now w s = clock w (ticks s)"

definition tick :: "svc_state \<Rightarrow> svc_state" where
  "tick s = s\<lparr>ticks := Suc (ticks s)\<rparr>"

text \<open>Truthiness of an optional string: set and not empty.\<close>

definition truthy_str :: "string option \<Rightarrow> bool" where
  "truthy_str v = (case v of None \<Rightarrow> False | Some x \<Rightarrow> x \<noteq> [])"

subsection \<open>getToken\<close>

text \<open>
  \<open>cachedToken && tokenExpiresAt && (tokenExpiresAt - 60000) > now\<close>, giving the
  token to return.
\<close>

definition valid_token :: "svc_state \<Rightarrow> int \<Rightarrow> string option" where
  "valid_token s now =
     (case cachedToken s of
        None \<Rightarrow> None
      | Some t \<Rightarrow>
          if t = [] then None
          else (case tokenExpiresAt s of
                  None \<Rightarrow> None
                | Some e \<Rightarrow> if e \<noteq> 0 \<and> e - 60000 > now then Some t else None))"

text \<open>\<open>data.token || data.access_token\<close> and \<open>data.expires_in || data.expiresIn || 3600\<close>.\<close>

definition token_of :: "login_data \<Rightarrow> string option" where
  "token_of d = (if truthy_str (token d) then token d else access_token d)"

definition expiresIn_of :: "login_data \<Rightarrow> int" where
  "expiresIn_of d =
     (case expires_in d of
        Some n \<Rightarrow> if n \<noteq> 0 then n
                  else (case expiresIn d of Some m \<Rightarrow> if m \<noteq> 0 then m else 3600 | None \<Rightarrow> 3600)
      | None \<Rightarrow> (case expiresIn d of Some m \<Rightarrow> if m \<noteq> 0 then m else 3600 | None \<Rightarrow> 3600))"

text \<open>The body of the \<open>try\<close> block: one login request and the reading of its answer.\<close>

definition login :: "world \<Rightarrow> int \<Rightarrow> svc_state \<Rightarrow> (error + string) \<times> svc_state" where
  "login w now s =
     (let s1 = s\<lparr>logins := Suc (logins s)\<rparr>
      in case login_fetch w (logins s) of
           Throws \<Rightarrow> (Inl OtherError, s1)
         | Response status body \<Rightarrow>
             if \<not> ok status then (Inl (EmdexError AUTH_FAILED), s1)
             else (case body of
                     None \<Rightarrow> (Inl OtherError, s1)
                   | Some JsonNull \<Rightarrow> (Inl OtherError, s1)
                   | Some (Fields d) \<Rightarrow>
                       (case token_of d of
                          None \<Rightarrow> (Inl (EmdexError AUTH_FAILED), s1)
                        | Some t \<Rightarrow>
                            if t = [] then (Inl (EmdexError AUTH_FAILED), s1)
                            else (Inr t,
                                  s1\<lparr>tokenExpiresAt := Some (now + expiresIn_of d * 1000),
                                     cachedToken := Some t\<rparr>))))"

definition getToken :: "world \<Rightarrow> svc_state \<Rightarrow> (error + string) \<times> svc_state" where
  "getToken w s0 =
     (let now = Date_now w s0; s = tick s0
      in case valid_token s now of
           Some t \<Rightarrow> (Inr t, s)
         | None \<Rightarrow>
             if \<not> truthy_str (EMDEX_API_URL w) \<or> \<not> truthy_str (EMDEX_EMAIL w)
                \<or> \<not> truthy_str (EMDEX_PASSWORD w)
             then (Inl (EmdexError AUTH_FAILED), s)
             else (case login w now s of
                     (Inr t, s1) \<Rightarrow> (Inr t, s1)
                   | (Inl e, s1) \<Rightarrow>
                       (Inl (wrap_network e),
                        s1\<lparr>cachedToken := None, tokenExpiresAt := None\<rparr>)))"

definition clearTokenCache :: "svc_state \<Rightarrow> svc_state" where
  "clearTokenCache s = s\<lparr>cachedToken := None, tokenExpiresAt := None\<rparr>"

subsection \<open>emdexRequest\<close>

text \<open>
  The function calls itself only from a call with \<open>isRetry = false\<close>, and then with
  \<open>isRetry = true\<close>. An error of \<open>getToken\<close> passes through the \<open>catch\<close> block.
\<close>

function emdexRequest ::
  "world \<Rightarrow> string \<Rightarrow> (string \<times> jsval) list \<Rightarrow> bool \<Rightarrow> svc_state \<Rightarrow> (error + jsval) \<times> svc_state"
where
  "emdexRequest w endpoint body isRetry s =
     (if USE_MOCK w then (mockEmdexRequest w endpoint body, s)
      else if \<not> truthy_str (EMDEX_API_URL w) then (Inl (EmdexError REQUEST_FAILED), s)
      else (case getToken w s of
              (Inl e, s1) \<Rightarrow> (Inl (wrap_network e), s1)
            | (Inr tok, s1) \<Rightarrow>
                (let s2 = s1\<lparr>requests := Suc (requests s1)\<rparr>
                 in case data_fetch w (requests s1) of
                      Throws \<Rightarrow> (Inl (EmdexError NETWORK_ERROR), s2)
                    | Response status rbody \<Rightarrow>
                        if status = 401 \<and> \<not> isRetry
                        then emdexRequest w endpoint body True
                               (s2\<lparr>cachedToken := None, tokenExpiresAt := None\<rparr>)
                        else if \<not> ok status then (Inl (EmdexError REQUEST_FAILED), s2)
                        else (case rbody of
                                None \<Rightarrow> (Inl (EmdexError NETWORK_ERROR), s2)
                              | Some d \<Rightarrow> (Inr d, s2)))))"
  by pat_completeness auto
termination
  by (relation "measure (\<lambda>(w, endpoint, body, isRetry, s). if isRetry then 0 else 1)") auto

declare emdexRequest.simps [simp del]

subsection \<open>cachedEmdexRequest\<close>

definition CACHE_TTL_SEARCH :: int where
  "CACHE_TTL_SEARCH = 3600"

text \<open>\<open>endpoint.replace(/\//g, '_')\<close>.\<close>

definition replace_slashes :: "string \<Rightarrow> string" where
  "replace_slashes endpoint = map (\<lambda>c. if c = CHR ''/'' then CHR ''_'' else c) endpoint"

text \<open>
  \<open>result.error\<close> of a truthy result: the property of an object, \<open>undefined\<close> on an
  array or a primitive value.
\<close>

fun error_of :: "jsval \<Rightarrow> jsval" where
  "error_of (JObj ps) = (case map_of ps ''error'' of None \<Rightarrow> JUndefined | Some v \<Rightarrow> v)"
| "error_of v = JUndefined"

text \<open>
  \<open>{ ...v, _cache: info }\<close>: the own enumerable properties of \<open>v\<close> (the properties
  of an object, the indexed elements of an array or of a string, nothing for the other
  values), with \<open>_cache\<close> set last.
\<close>

fun own_props :: "jsval \<Rightarrow> (string \<times> jsval) list" where
  "own_props (JObj ps) = ps"
| "own_props (JArr xs) = zip (map show_nat [0..<length xs]) xs"
| "own_props (JStr s) = zip (map show_nat [0..<length s]) (map (\<lambda>c. JStr [c]) s)"
| "own_props v = []"

definition cache_info :: "bool \<Rightarrow> string \<Rightarrow> int \<Rightarrow> jsval" where
  "cache_info hit key t = JObj [(''hit'', JBool hit), (''key'', JStr key), (''ttl'', JNum t)]"

definition annotate :: "jsval \<Rightarrow> jsval \<Rightarrow> jsval" where
  "annotate v info = JObj (AList.update ''_cache'' info (own_props v))"

text \<open>
  The parameters \<open>body\<close> and \<open>ttlSeconds\<close> are passed explicitly; a caller that
  leaves them out passes \<open>{}\<close> and \<open>CACHE_TTL_SEARCH\<close>.
\<close>

definition cachedEmdexRequest ::
  "world \<Rightarrow> string \<Rightarrow> (string \<times> jsval) list \<Rightarrow> int \<Rightarrow> svc_state \<Rightarrow> (error + jsval) \<times> svc_state"
where
  "cachedEmdexRequest w endpoint body ttlSeconds s =
     (let cacheKey = generateKey (''emdex'' @ replace_slashes endpoint) body;
          (cachedData, c1) = get cacheKey (Date_now w s) (cache s);
          s1 = tick (s\<lparr>cache := c1\<rparr>)
      in if truthy cachedData
         then (let (t, c2) = getTTL cacheKey (Date_now w s1) (cache s1);
                   s2 = tick (s1\<lparr>cache := c2\<rparr>)
               in (Inr (annotate cachedData (cache_info True cacheKey t)), s2))
         else (case emdexRequest w endpoint body False s1 of
                 (Inl e, s2) \<Rightarrow> (Inl e, s2)
               | (Inr result, s2) \<Rightarrow>
                   (let s3 = (if truthy result \<and> \<not> truthy (error_of result)
                              then tick (s2\<lparr>cache :=
                                     set_cache cacheKey result ttlSeconds (Date_now w s2) (cache s2)\<rparr>)
                              else s2)
                    in (Inr (annotate result (cache_info False cacheKey ttlSeconds)), s3))))"

definition clearResponseCache :: "svc_state \<Rightarrow> svc_state" where
  "clearResponseCache s = s\<lparr>cache := clear (cache s)\<rparr>"


subsection \<open>Notions and examples used to state the properties\<close>

text \<open>The three settings \<open>getToken\<close> needs are all set and not empty.\<close>

definition configured :: "world \<Rightarrow> bool" where
  "configured w =
     (truthy_str (EMDEX_API_URL w) \<and> truthy_str (EMDEX_EMAIL w) \<and> truthy_str (EMDEX_PASSWORD w))"

text \<open>
  A configured world in which every login request gets the answer \<open>lf\<close> and every data
  request the answer \<open>df\<close>, with the clock standing at \<open>1000000\<close>; the same world
  without its settings; the state of a process that has just started.
\<close>

definition demo_world :: "login_body fetch_result \<Rightarrow> jsval fetch_result \<Rightarrow> world" where
  "demo_world lf df =
     \<lparr>EMDEX_API_URL = Some ''https://emdex.example'', EMDEX_EMAIL = Some ''a@b.c'',
      EMDEX_PASSWORD = Some ''secret'', USE_MOCK = False,
      mockEmdexRequest = (\<lambda>endpoint body. Inr JNull),
      login_fetch = (\<lambda>n. lf), data_fetch = (\<lambda>n. df), clock = (\<lambda>n. 1000000)\<rparr>"

definition unconfigured_world :: world where
  "unconfigured_world =
     (demo_world Throws Throws)
       \<lparr>EMDEX_API_URL := None, EMDEX_EMAIL := None, EMDEX_PASSWORD := None\<rparr>"

definition init_state :: svc_state where
  "init_state =
     \<lparr>cachedToken = None, tokenExpiresAt = None, cache = empty_cache,
      logins = 0, requests = 0, ticks = 0\<rparr>"

text \<open>A login answer that carries a token and no lifetime.\<close>

definition login_ok :: "login_body fetch_result" where
  "login_ok =
     Response 200 (Some (Fields \<lparr>token = Some ''tok1'', access_token = None,
                                  expires_in = None, expiresIn = None\<rparr>))"

text \<open>The state after one successful login from \<open>init_state\<close> at time \<open>1000000\<close>.\<close>

definition after_login :: svc_state where
  "after_login =
     \<lparr>cachedToken = Some ''tok1'', tokenExpiresAt = Some 4600000, cache = empty_cache,
      logins = 1, requests = 0, ticks = 1\<rparr>"

text \<open>
  The calls a client of the module can make, and the state a process reaches by making
  them one after another in one world; the process starts in \<open>init_state\<close>.
\<close>

datatype svc_op =
    SGetToken
  | SRequest string "(string \<times> jsval) list" bool
  | SCachedRequest string "(string \<times> jsval) list" int
  | SClearTokenCache
  | SClearResponseCache

fun svc_exec :: "world \<Rightarrow> svc_op \<Rightarrow> svc_state \<Rightarrow> svc_state" where
  "svc_exec w SGetToken s = snd (getToken w s)"
| "svc_exec w (SRequest endpoint body isRetry) s = snd (emdexRequest w endpoint body isRetry s)"
| "svc_exec w (SCachedRequest endpoint body ttlSeconds) s =
     snd (cachedEmdexRequest w endpoint body ttlSeconds s)"
| "svc_exec w SClearTokenCache s = clearTokenCache s"
| "svc_exec w SClearResponseCache s = clearResponseCache s"

fun svc_run :: "world \<Rightarrow> svc_op list \<Rightarrow> svc_state \<Rightarrow> svc_state" where
  "svc_run w [] s = s"
| "svc_run w (x # xs) s = svc_run w xs (svc_exec w x s)"

text \<open>No token and no expiry are stored.\<close>

definition no_token :: "svc_state \<Rightarrow> bool" where
  "no_token s = (cachedToken s = None \<and> tokenExpiresAt s = None)"

text \<open>
  A configured world whose first login is answered with a token that lives thirty
  seconds, less than the refresh buffer, and whose network is down afterwards; and the
  state of a process that has fetched that token.
\<close>

definition login_short :: "login_body fetch_result" where
  "login_short =
     Response 200 (Some (Fields \<lparr>token = Some ''tok1'', access_token = None,
                                  expires_in = Some 30, expiresIn = None\<rparr>))"

definition flaky_world :: world where
  "flaky_world =
     (demo_world login_short Throws)
       \<lparr>login_fetch := (\<lambda>n. if n = 0 then login_short else Throws)\<rparr>"

definition short_lived_state :: svc_state where
  "short_lived_state =
     \<lparr>cachedToken = Some ''tok1'', tokenExpiresAt = Some 1030000, cache = empty_cache,
      logins = 1, requests = 0, ticks = 1\<rparr>"

text \<open>
  The state in which the retry of a request starts after one login and one rejected data
  request, and the state after the second login.
\<close>

definition retry_state :: svc_state where
  "retry_state = after_login\<lparr>requests := 1, cachedToken := None, tokenExpiresAt := None\<rparr>"

definition after_relogin :: svc_state where
  "after_relogin =
     \<lparr>cachedToken = Some ''tok1'', tokenExpiresAt = Some 4600000, cache = empty_cache,
      logins = 2, requests = 1, ticks = 2\<rparr>"

text \<open>
  A successful answer of the upstream that reports \<open>error: false\<close> beside its data,
  and the key under which a search for \<open>Panadol\<close> is cached.
\<close>

definition flagged_result :: jsval where
  "flagged_result = JObj [(''error'', JBool False), (''data'', JArr [])]"

definition search_key :: string where
  "search_key = ''emdex_api_v1_brands_search_query=panadol''"

text \<open>
  An answer without an \<open>error\<close> property, and the state of the process after
  \<open>init_state\<close> has fetched and cached it for an hour.
\<close>

definition plain_result :: jsval where
  "plain_result = JObj [(''data'', JArr [])]"

definition warm_state :: svc_state where
  "warm_state =
     \<lparr>cachedToken = Some ''tok1'', tokenExpiresAt = Some 4600000,
      cache = \<lparr>store = [(search_key, \<lparr>data = plain_result, createdAt = 1000000,
                                        expiresAt = 4600000, ttl = 3600\<rparr>)],
               hits = 0, misses = 1, sets = 1, evictions = 0\<rparr>,
      logins = 1, requests = 1, ticks = 3\<rparr>"

text \<open>An answer of the upstream that reports an error in its body.\<close>

definition failed_result :: jsval where
  "failed_result = JObj [(''error'', JStr ''Unknown endpoint'')]"

section \<open>Properties of the cache\<close>

subsection \<open>Eviction and the size bound\<close>

lemma evict_loop_store:
  "store (evict_loop es i c) =
     filter (\<lambda>p. fst p \<notin> fst ` set (take (itemsToRemove - i) (drop i es))) (store c)"
proof (induction es i c rule: evict_loop.induct)
  case (1 entries i c)
  show ?case
  proof (cases "i < itemsToRemove \<and> i < length entries")
    case True
    then have d: "drop i entries = entries ! i # drop (Suc i) entries"
      by (simp add: Cons_nth_drop_Suc)
    from True have t: "itemsToRemove - i = Suc (itemsToRemove - Suc i)" by arith
    show ?thesis
      using True "1.IH"
      by (subst evict_loop.simps) (auto simp: d t AList.delete_eq intro!: filter_cong)
  next
    case False
    then show ?thesis
      by (subst evict_loop.simps) auto
  qed
qed

lemma evict_loop_evictions:
  "evictions (evict_loop es i c) = evictions c + (min itemsToRemove (length es) - i)"
proof (induction es i c rule: evict_loop.induct)
  case (1 entries i c)
  show ?case
  proof (cases "i < itemsToRemove \<and> i < length entries")
    case True
    then show ?thesis using "1.IH"
      by (subst evict_loop.simps) auto
  next
    case False
    then show ?thesis
      by (subst evict_loop.simps) auto
  qed
qed

lemma evict_loop_frame:
  "hits (evict_loop es i c) = hits c \<and> misses (evict_loop es i c) = misses c
   \<and> sets (evict_loop es i c) = sets c"
proof (induction es i c rule: evict_loop.induct)
  case (1 entries i c)
  show ?case
  proof (cases "i < itemsToRemove \<and> i < length entries")
    case True
    then show ?thesis using "1.IH"
      by (subst (1 2 3) evict_loop.simps) auto
  next
    case False
    then show ?thesis
      by (subst (1 2 3) evict_loop.simps) auto
  qed
qed

lemma itemsToRemove_100: "itemsToRemove = 100"
  by (simp add: itemsToRemove_def MAX_CACHE_SIZE_def)

lemma victims_subset: "set (victims c) \<subseteq> set (store c)"
  unfolding victims_def by (metis set_sort set_take_subset)

lemma distinct_victims: "unique_keys c \<Longrightarrow> distinct (victims c)"
  unfolding victims_def unique_keys_def
  by (metis distinct_map distinct_sort distinct_take)

lemma evictOldest_store:
  assumes "unique_keys c"
  shows "store (evictOldest c) = filter (\<lambda>p. p \<notin> set (victims c)) (store c)"
proof -
  have "fst p \<notin> fst ` set (victims c) \<longleftrightarrow> p \<notin> set (victims c)" if "p \<in> set (store c)" for p
  proof
    assume "fst p \<notin> fst ` set (victims c)" then show "p \<notin> set (victims c)" by auto
  next
    assume n: "p \<notin> set (victims c)"
    show "fst p \<notin> fst ` set (victims c)"
    proof
      assume "fst p \<in> fst ` set (victims c)"
      then obtain q where q: "q \<in> set (victims c)" "fst q = fst p" by auto
      with victims_subset have "q \<in> set (store c)" by auto
      with that q assms have "q = p"
        unfolding unique_keys_def by (metis eq_key_imp_eq_value prod.collapse)
      with q n show False by simp
    qed
  qed
  then show ?thesis
    unfolding evictOldest_def evict_loop_store victims_def
    by (auto intro!: filter_cong)
qed

lemma length_victims: "length (victims c) = min itemsToRemove (cache_size c)"
  by (simp add: victims_def cache_size_def min.commute)

lemma evictOldest_size:
  assumes "unique_keys c"
  shows "cache_size (evictOldest c) = cache_size c - min itemsToRemove (cache_size c)"
proof -
  have d: "distinct (store c)" using assms unfolding unique_keys_def by (simp add: distinct_map)
  have e: "{x. x \<notin> set (victims c)} \<inter> set (store c) = set (store c) - set (victims c)"
    by auto
  have "cache_size (evictOldest c) = card (set (store c) - set (victims c))"
    unfolding cache_size_def evictOldest_store [OF assms] distinct_length_filter [OF d] e ..
  also have "\<dots> = card (set (store c)) - card (set (victims c))"
    by (rule card_Diff_subset) (simp_all add: victims_subset)
  also have "\<dots> = cache_size c - min itemsToRemove (cache_size c)"
    using d distinct_victims [OF assms]
    by (simp add: distinct_card cache_size_def length_victims [unfolded cache_size_def])
  finally show ?thesis .
qed

lemma evictOldest_evictions:
  "evictions (evictOldest c) = evictions c + min itemsToRemove (cache_size c)"
  by (simp add: evictOldest_def evict_loop_evictions cache_size_def)

lemma evictOldest_frame:
  "hits (evictOldest c) = hits c \<and> misses (evictOldest c) = misses c
   \<and> sets (evictOldest c) = sets c"
  by (simp add: evictOldest_def evict_loop_frame)

lemma evictOldest_unique: "unique_keys c \<Longrightarrow> unique_keys (evictOldest c)"
  unfolding unique_keys_def evictOldest_def evict_loop_store
  by (simp add: distinct_map_filter)

lemma victims_oldest:
  assumes "unique_keys c" "v \<in> set (victims c)" "r \<in> set (store (evictOldest c))"
  shows "createdAt (snd v) \<le> createdAt (snd r)"
proof -
  let ?f = "\<lambda>e. createdAt (snd e)"
  let ?s = "sort_key ?f (store c)"
  have s: "sorted (map ?f (take itemsToRemove ?s @ drop itemsToRemove ?s))"
    by simp
  from assms(1,3) have "r \<in> set (store c)" "r \<notin> set (victims c)"
    by (auto simp: evictOldest_store)
  then have "r \<in> set (drop itemsToRemove ?s)"
    unfolding victims_def
    by (metis Un_iff append_take_drop_id set_append set_sort)
  moreover have "v \<in> set (take itemsToRemove ?s)" using assms(2) by (simp add: victims_def)
  ultimately show ?thesis
    using s unfolding map_append sorted_append by auto
qed


lemma length_update_le: "length (AList.update k v al) \<le> Suc (length al)"
  by (induction al) auto

lemma update_fresh: "k \<notin> fst ` set al \<Longrightarrow> AList.update k v al = al @ [(k, v)]"
  by (induction al) auto

lemma insert_entry_size:
  "cache_size (c\<lparr>store := AList.update key e (store c), sets := n\<rparr>) \<le> Suc (cache_size c)"
  by (simp add: cache_size_def length_update_le)

lemma insert_entry_unique:
  "unique_keys c \<Longrightarrow> unique_keys (c\<lparr>store := AList.update key e (store c), sets := n\<rparr>)"
  by (simp add: unique_keys_def distinct_update)

lemma set_cache_size_le:
  "cache_size (set_cache key d ttlSeconds now c) \<le>
     Suc (cache_size (if cache_size c \<ge> MAX_CACHE_SIZE then evictOldest c else c))"
  by (simp add: set_cache_def Let_def insert_entry_size)

lemma set_cache_unique:
  "unique_keys c \<Longrightarrow> unique_keys (set_cache key d ttlSeconds now c)"
  by (simp add: set_cache_def Let_def insert_entry_unique evictOldest_unique)

lemma set_cache_inv:
  assumes "cache_inv c"
  shows "cache_inv (set_cache key d ttlSeconds now c)"
proof -
  from assms have u: "unique_keys c" and le: "cache_size c \<le> MAX_CACHE_SIZE"
    by (simp_all add: cache_inv_def)
  have "cache_size (set_cache key d ttlSeconds now c) \<le> MAX_CACHE_SIZE"
  proof (cases "cache_size c \<ge> MAX_CACHE_SIZE")
    case True
    then have "cache_size (evictOldest c) \<le> 900"
      using evictOldest_size [OF u] le by (simp add: itemsToRemove_100 MAX_CACHE_SIZE_def)
    with True set_cache_size_le [of key d ttlSeconds now c] show ?thesis
      by (simp add: MAX_CACHE_SIZE_def)
  next
    case False
    with set_cache_size_le [of key d ttlSeconds now c] show ?thesis by simp
  qed
  with set_cache_unique [OF u] show ?thesis by (simp add: cache_inv_def)
qed

lemma delete_inv:
  "cache_inv c \<Longrightarrow> cache_inv (c\<lparr>store := AList.delete key (store c)\<rparr>)"
  using length_delete_le [of key "store c"]
  by (auto simp: cache_inv_def unique_keys_def cache_size_def distinct_delete)

lemma exec_op_inv: "cache_inv c \<Longrightarrow> cache_inv (exec_op x c)"
proof (cases x)
  case (OSet key d ttlSeconds now)
  assume "cache_inv c"
  then show ?thesis using OSet by (simp add: set_cache_inv)
next
  case (OGet key now)
  assume "cache_inv c"
  then show ?thesis using OGet delete_inv [of c key]
    by (auto simp: get_def cache_inv_def unique_keys_def cache_size_def split: option.splits)
next
  case (OHas key now)
  assume "cache_inv c"
  then show ?thesis using OHas delete_inv [of c key]
    by (auto simp: has_def split: option.splits)
next
  case (ODel key)
  assume "cache_inv c"
  then show ?thesis using ODel delete_inv [of c key] by (simp add: del_def)
next
  case OClear
  then show ?thesis
    by (simp add: clear_def cache_inv_def unique_keys_def cache_size_def)
next
  case (OGetTTL key now)
  assume "cache_inv c"
  then show ?thesis using OGetTTL by (simp add: getTTL_def Let_def split: option.splits)
qed

lemma run_inv: "cache_inv c \<Longrightarrow> cache_inv (run ops c)"
  by (induction ops arbitrary: c) (simp_all add: exec_op_inv)

lemma empty_inv: "cache_inv empty_cache"
  by (simp add: cache_inv_def unique_keys_def cache_size_def empty_cache_def)

lemma run_append: "run (xs @ ys) c = run ys (run xs c)"
  by (induction xs arbitrary: c) simp_all

lemma fill_keys: "replicate (Suc n) CHR ''k'' \<notin> fst ` set (fill_store n)"
proof
  assume "replicate (Suc n) CHR ''k'' \<in> fst ` set (fill_store n)"
  then obtain i where "i < n" "replicate (Suc n) CHR ''k'' = replicate (Suc i) CHR ''k''"
    by (auto simp: fill_store_def)
  then have "length (replicate (Suc n) CHR ''k'') = length (replicate (Suc i) CHR ''k'')"
    by simp
  with \<open>i < n\<close> show False by simp
qed

lemma run_fill:
  "n \<le> MAX_CACHE_SIZE \<Longrightarrow>
   run (fill_ops n) empty_cache =
     \<lparr>store = fill_store n, hits = 0, misses = 0, sets = n, evictions = 0\<rparr>"
proof (induction n)
  case 0
  show ?case by (simp add: fill_ops_def fill_store_def empty_cache_def)
next
  case (Suc n)
  then have ih: "run (fill_ops n) empty_cache =
     \<lparr>store = fill_store n, hits = 0, misses = 0, sets = n, evictions = 0\<rparr>"
    and lt: "n < MAX_CACHE_SIZE" by simp_all
  have "fill_ops (Suc n) = fill_ops n @ [fill_op n]" by (simp add: fill_ops_def)
  then have "run (fill_ops (Suc n)) empty_cache = exec_op (fill_op n) (run (fill_ops n) empty_cache)"
    by (simp add: run_append)
  also have "\<dots> = \<lparr>store = fill_store n @ [(replicate (Suc n) CHR ''k'',
               \<lparr>data = JNull, createdAt = int n, expiresAt = int n + 60000, ttl = 60\<rparr>)],
       hits = 0, misses = 0, sets = Suc n, evictions = 0\<rparr>"
  proof -
    have len: "length (fill_store n) = n" by (simp add: fill_store_def)
    show ?thesis
      using lt
      by (simp add: ih fill_op_def set_cache_def cache_size_def len
          update_fresh [OF fill_keys] del: replicate.simps)
  qed
  also have "\<dots> = \<lparr>store = fill_store (Suc n), hits = 0, misses = 0, sets = Suc n, evictions = 0\<rparr>"
    by (simp add: fill_store_def)
  finally show ?case .
qed

text \<open>
  Claim C1. Whatever sequence of operations has run from the empty cache, the store holds
  at most \<open>MAX_CACHE_SIZE = 1000\<close> entries. When \<open>set\<close> is called on a store that
  holds 1000 entries, \<open>evictOldest\<close> first removes exactly 100 entries: the first 100
  of the entries in the stable order by creation time, so that every removed entry was
  created no later than every entry that stays, whatever their expiry times. The
  evictions counter grows by 100, one per removed entry, and only then is the new entry
  written and the sets counter incremented; the store is again within the bound.
\<close>
theorem cache_bounded_eviction:
  fixes ops key d ttlSeconds now
  defines "c \<equiv> run ops empty_cache"
  shows "cache_size c \<le> MAX_CACHE_SIZE \<and>
    (cache_size c \<ge> MAX_CACHE_SIZE \<longrightarrow>
       length (victims c) = 100 \<and>
       store (evictOldest c) = filter (\<lambda>p. p \<notin> set (victims c)) (store c) \<and>
       cache_size (evictOldest c) = cache_size c - 100 \<and>
       evictions (evictOldest c) = evictions c + 100 \<and>
       (\<forall>v \<in> set (victims c). \<forall>r \<in> set (store (evictOldest c)).
          createdAt (snd v) \<le> createdAt (snd r)) \<and>
       set_cache key d ttlSeconds now c =
         (evictOldest c)\<lparr>store := AList.update key
             \<lparr>data = d, createdAt = now, expiresAt = now + ttlSeconds * 1000, ttl = ttlSeconds\<rparr>
             (store (evictOldest c)),
           sets := sets c + 1\<rparr> \<and>
       cache_size (set_cache key d ttlSeconds now c) \<le> MAX_CACHE_SIZE)"
proof -
  have inv: "cache_inv c" unfolding c_def by (rule run_inv [OF empty_inv])
  then have u: "unique_keys c" and le: "cache_size c \<le> MAX_CACHE_SIZE"
    by (simp_all add: cache_inv_def)
  have after: "cache_size (set_cache key d ttlSeconds now c) \<le> MAX_CACHE_SIZE"
    using set_cache_inv [OF inv] by (simp add: cache_inv_def)
  {
    assume ge: "cache_size c \<ge> MAX_CACHE_SIZE"
    then have m: "min itemsToRemove (cache_size c) = 100"
      by (simp add: itemsToRemove_100 MAX_CACHE_SIZE_def)
    have "length (victims c) = 100" by (simp add: length_victims m)
    moreover have "cache_size (evictOldest c) = cache_size c - 100"
      by (simp add: evictOldest_size [OF u] m)
    moreover have "evictions (evictOldest c) = evictions c + 100"
      by (simp add: evictOldest_evictions m)
    moreover have "set_cache key d ttlSeconds now c =
         (evictOldest c)\<lparr>store := AList.update key
             \<lparr>data = d, createdAt = now, expiresAt = now + ttlSeconds * 1000, ttl = ttlSeconds\<rparr>
             (store (evictOldest c)),
           sets := sets c + 1\<rparr>"
      using ge by (simp add: set_cache_def evictOldest_frame Let_def)
    ultimately have "length (victims c) = 100 \<and>
       store (evictOldest c) = filter (\<lambda>p. p \<notin> set (victims c)) (store c) \<and>
       cache_size (evictOldest c) = cache_size c - 100 \<and>
       evictions (evictOldest c) = evictions c + 100 \<and>
       (\<forall>v \<in> set (victims c). \<forall>r \<in> set (store (evictOldest c)).
          createdAt (snd v) \<le> createdAt (snd r)) \<and>
       set_cache key d ttlSeconds now c =
         (evictOldest c)\<lparr>store := AList.update key
             \<lparr>data = d, createdAt = now, expiresAt = now + ttlSeconds * 1000, ttl = ttlSeconds\<rparr>
             (store (evictOldest c)),
           sets := sets c + 1\<rparr>"
      using evictOldest_store [OF u] victims_oldest [OF u] by blast
  }
  with le after show ?thesis by blast
qed

text \<open>
  A thousand insertions under different keys fill the cache; the next \<open>set\<close> evicts
  100 entries and leaves the store within the bound.
\<close>
theorem cache_bounded_eviction_witness:
  "cache_size (run (fill_ops 1000) empty_cache) \<ge> MAX_CACHE_SIZE \<and>
   length (victims (run (fill_ops 1000) empty_cache)) = 100 \<and>
   cache_size (evictOldest (run (fill_ops 1000) empty_cache)) = 900 \<and>
   evictions (evictOldest (run (fill_ops 1000) empty_cache)) = 100 \<and>
   cache_size (set_cache ''new'' JNull 60 5000 (run (fill_ops 1000) empty_cache)) \<le> MAX_CACHE_SIZE"
proof -
  have r: "run (fill_ops 1000) empty_cache =
     \<lparr>store = fill_store 1000, hits = 0, misses = 0, sets = 1000, evictions = 0\<rparr>"
    by (rule run_fill) (simp add: MAX_CACHE_SIZE_def)
  have sz: "cache_size (run (fill_ops 1000) empty_cache) = 1000"
    unfolding r by (simp add: cache_size_def fill_store_def)
  then have ge: "cache_size (run (fill_ops 1000) empty_cache) \<ge> MAX_CACHE_SIZE"
    by (simp add: MAX_CACHE_SIZE_def)
  have ev: "evictions (run (fill_ops 1000) empty_cache) = 0" unfolding r by simp
  note th = cache_bounded_eviction [of "fill_ops 1000" "''new''" JNull 60 5000]
  note concl = th [THEN conjunct2, THEN mp, OF ge]
  from concl have "length (victims (run (fill_ops 1000) empty_cache)) = 100" by blast
  moreover from concl have "cache_size (evictOldest (run (fill_ops 1000) empty_cache)) = 900"
    by (simp add: sz)
  moreover from concl have "evictions (evictOldest (run (fill_ops 1000) empty_cache)) = 100"
    by (simp add: ev)
  moreover from concl
  have "cache_size (set_cache ''new'' JNull 60 5000 (run (fill_ops 1000) empty_cache))
          \<le> MAX_CACHE_SIZE"
    by blast
  ultimately show ?thesis using ge by blast
qed

subsection \<open>Clearing, remaining lifetime, expiry\<close>

text \<open>
  Claim C8. \<open>clear\<close> empties the store, so that its size is \<open>0\<close>, and leaves the
  counters of hits, misses, sets and evictions as they were.
\<close>
theorem clear_keeps_counters:
  "store (clear c) = [] \<and> cache_size (clear c) = 0 \<and>
   hits (clear c) = hits c \<and> misses (clear c) = misses c \<and>
   sets (clear c) = sets c \<and> evictions (clear c) = evictions c"
  by (simp add: clear_def cache_size_def)

text \<open>
  Claim C10. \<open>getTTL\<close> leaves the cache as it found it, store and counters alike.
  For a key whose entry is present with \<open>expiresAt \<le> now\<close> it answers \<open>0\<close> and
  the entry stays in the store; the entry of an expired key is removed by \<open>get\<close> and
  by \<open>has\<close>.
\<close>
theorem getTTL_does_not_mutate:
  "snd (getTTL key now c) = c \<and>
   (\<forall>item. map_of (store c) key = Some item \<and> expiresAt item \<le> now \<longrightarrow>
      fst (getTTL key now c) = 0 \<and> map_of (store (snd (getTTL key now c))) key = Some item) \<and>
   (\<forall>item. map_of (store c) key = Some item \<and> expiresAt item < now \<longrightarrow>
      map_of (store (snd (get key now c))) key = None \<and>
      map_of (store (snd (has key now c))) key = None)"
  by (auto simp: getTTL_def get_def has_def Let_def delete_conv' split: option.splits)

text \<open>
  The entry of \<open>stale_cache\<close> expired at \<open>1000\<close>. At time \<open>2000\<close>,
  \<open>getTTL\<close> answers \<open>0\<close> and changes nothing, while \<open>get\<close> and \<open>has\<close>
  remove the entry.
\<close>
theorem getTTL_does_not_mutate_witness:
  "map_of (store stale_cache) ''k'' =
     Some \<lparr>data = JNum 7, createdAt = 0, expiresAt = 1000, ttl = 1\<rparr> \<and>
   (1000::int) < 2000 \<and>
   getTTL ''k'' 2000 stale_cache = (0, stale_cache) \<and>
   map_of (store (snd (get ''k'' 2000 stale_cache))) ''k'' = None \<and>
   map_of (store (snd (has ''k'' 2000 stale_cache))) ''k'' = None"
proof -
  have m: "map_of (store stale_cache) ''k'' =
     Some \<lparr>data = JNum 7, createdAt = 0, expiresAt = 1000, ttl = 1\<rparr>"
    by (simp add: stale_cache_def)
  from getTTL_does_not_mutate [of "''k''" 2000 stale_cache] m
  show ?thesis by (auto simp: prod_eq_iff)
qed

text \<open>
  Claim C4 says that an entry is reported as not found and removed once
  \<open>now \<ge> expiresAt\<close>. The code tests \<open>item.expiresAt < now\<close>: at the instant
  \<open>now = expiresAt\<close> the entry is still served. An entry stored at time \<open>0\<close> for
  one second expires at \<open>1000\<close>; at time \<open>1000\<close>, \<open>get\<close> returns its value,
  \<open>has\<close> answers true, and the store keeps its size.
\<close>
theorem expiry_boundary_counterexample:
  "stale_cache = set_cache ''k'' (JNum 7) 1 0 empty_cache \<and>
   map_of (store stale_cache) ''k'' =
     Some \<lparr>data = JNum 7, createdAt = 0, expiresAt = 1000, ttl = 1\<rparr> \<and>
   (1000::int) \<ge> 1000 \<and>
   fst (get ''k'' 1000 stale_cache) = JNum 7 \<and>
   fst (has ''k'' 1000 stale_cache) = True \<and>
   cache_size (snd (get ''k'' 1000 stale_cache)) = cache_size stale_cache \<and>
   cache_size (snd (has ''k'' 1000 stale_cache)) = cache_size stale_cache"
  by (simp add: stale_cache_def set_cache_def empty_cache_def cache_size_def
      MAX_CACHE_SIZE_def get_def has_def)

lemma length_delete_present:
  "distinct (map fst al) \<Longrightarrow> map_of al k = Some v \<Longrightarrow>
   Suc (length (AList.delete k al)) = length al"
proof (induction al)
  case Nil
  then show ?case by simp
next
  case (Cons p al)
  show ?case
  proof (cases "fst p = k")
    case True
    with Cons.prems have "k \<notin> fst ` set al" by auto
    then have "AList.delete k al = al" by simp
    with True show ?thesis by (cases p) (simp add: AList.delete_eq)
  next
    case False
    with Cons show ?thesis by (cases p) (auto simp: AList.delete_eq)
  qed
qed

text \<open>
  Claim C4, amended. For every stored entry, once \<open>now > expiresAt\<close>, \<open>get\<close>
  returns \<open>null\<close> and \<open>has\<close> returns false; each of them removes the entry, so
  that the key is no longer in the store and the store is smaller by exactly one. While
  \<open>now \<le> expiresAt\<close>, and so at \<open>now = expiresAt\<close>, the entry is still served:
  \<open>get\<close> returns its value and counts a hit, \<open>has\<close> returns true, and the store
  is left as it was.
\<close>
theorem expired_entry_removed:
  assumes "unique_keys c" and "map_of (store c) key = Some item"
  shows "(expiresAt item < now \<longrightarrow>
            fst (get key now c) = JNull \<and> fst (has key now c) = False \<and>
            map_of (store (snd (get key now c))) key = None \<and>
            map_of (store (snd (has key now c))) key = None \<and>
            cache_size (snd (get key now c)) + 1 = cache_size c \<and>
            cache_size (snd (has key now c)) + 1 = cache_size c) \<and>
         (now \<le> expiresAt item \<longrightarrow>
            get key now c = (data item, c\<lparr>hits := hits c + 1\<rparr>) \<and>
            has key now c = (True, c) \<and>
            store (snd (get key now c)) = store c \<and>
            cache_size (snd (get key now c)) = cache_size c \<and>
            cache_size (snd (has key now c)) = cache_size c)"
proof -
  have gone: "expiresAt item < now \<longrightarrow>
            fst (get key now c) = JNull \<and> fst (has key now c) = False \<and>
            map_of (store (snd (get key now c))) key = None \<and>
            map_of (store (snd (has key now c))) key = None \<and>
            cache_size (snd (get key now c)) + 1 = cache_size c \<and>
            cache_size (snd (has key now c)) + 1 = cache_size c"
    using assms length_delete_present [of "store c" key item]
    by (simp add: get_def has_def unique_keys_def cache_size_def delete_conv')
  have kept: "now \<le> expiresAt item \<longrightarrow>
            get key now c = (data item, c\<lparr>hits := hits c + 1\<rparr>) \<and>
            has key now c = (True, c) \<and>
            store (snd (get key now c)) = store c \<and>
            cache_size (snd (get key now c)) = cache_size c \<and>
            cache_size (snd (has key now c)) = cache_size c"
    using assms by (simp add: get_def has_def cache_size_def)
  from gone kept show ?thesis by (rule conjI)
qed

text \<open>
  The entry of \<open>stale_cache\<close> expires at \<open>1000\<close>: looked up at \<open>1001\<close> it is
  gone, looked up at \<open>1000\<close> it is served and kept.
\<close>
theorem expired_entry_removed_witness:
  "unique_keys stale_cache \<and>
   map_of (store stale_cache) ''k'' =
     Some \<lparr>data = JNum 7, createdAt = 0, expiresAt = 1000, ttl = 1\<rparr> \<and>
   (1000::int) < 1001 \<and>
   fst (get ''k'' 1001 stale_cache) = JNull \<and> fst (has ''k'' 1001 stale_cache) = False \<and>
   cache_size stale_cache = 1 \<and>
   cache_size (snd (get ''k'' 1001 stale_cache)) = 0 \<and>
   cache_size (snd (has ''k'' 1001 stale_cache)) = 0 \<and>
   (1000::int) \<le> 1000 \<and>
   get ''k'' 1000 stale_cache = (JNum 7, stale_cache\<lparr>hits := hits stale_cache + 1\<rparr>) \<and>
   has ''k'' 1000 stale_cache = (True, stale_cache) \<and>
   cache_size (snd (get ''k'' 1000 stale_cache)) = 1"
proof -
  let ?item = "\<lparr>data = JNum 7, createdAt = 0, expiresAt = 1000, ttl = 1\<rparr>"
  have u: "unique_keys stale_cache" by (simp add: unique_keys_def stale_cache_def)
  have m: "map_of (store stale_cache) ''k'' = Some ?item"
    by (simp add: stale_cache_def)
  have e: "expiresAt ?item < 1001" by simp
  have b: "1000 \<le> expiresAt ?item" by simp
  have sz: "cache_size stale_cache = 1" by (simp add: cache_size_def stale_cache_def)
  note late = expired_entry_removed [OF u m, of 1001, THEN conjunct1, THEN mp, OF e]
  note edge = expired_entry_removed [OF u m, of 1000, THEN conjunct2, THEN mp, OF b]
  from late sz have l: "fst (get ''k'' 1001 stale_cache) = JNull \<and>
      fst (has ''k'' 1001 stale_cache) = False \<and>
      cache_size (snd (get ''k'' 1001 stale_cache)) = 0 \<and>
      cache_size (snd (has ''k'' 1001 stale_cache)) = 0"
    by simp
  from edge have k1: "get ''k'' 1000 stale_cache =
        (JNum 7, stale_cache\<lparr>hits := hits stale_cache + 1\<rparr>)"
    by simp
  from edge have k2: "has ''k'' 1000 stale_cache = (True, stale_cache)"
    by (elim conjE)
  from edge have "cache_size (snd (get ''k'' 1000 stale_cache)) = cache_size stale_cache"
    by (elim conjE)
  then have k3: "cache_size (snd (get ''k'' 1000 stale_cache)) = 1"
    by (simp only: sz)
  have t1: "(1000::int) < 1001" and t2: "(1000::int) \<le> 1000" by simp_all
  from u m l k1 k2 k3 sz t1 t2 show ?thesis by blast
qed

subsection \<open>Cache keys\<close>

lemma normalizedPart_None:
  assumes "\<forall>(k, v) \<in> set params. v = JNull \<or> v = JUndefined"
  shows "normalizedPart params key = None"
proof (cases "map_of params key")
  case None
  then show ?thesis by (simp add: normalizedPart_def param_at_def)
next
  case (Some v)
  then have "(key, v) \<in> set params" by (rule map_of_SomeD)
  with assms have "v = JNull \<or> v = JUndefined" by auto
  with Some show ?thesis by (auto simp: normalizedPart_def param_at_def)
qed

text \<open>
  Claim C9. When the parameter object is empty, or every value in it is \<open>null\<close> or
  \<open>undefined\<close>, \<open>generateKey\<close> returns the prefix alone, with no separator after
  it.
\<close>
theorem generateKey_bare_prefix:
  assumes "\<forall>(k, v) \<in> set params. v = JNull \<or> v = JUndefined"
  shows "generateKey prefix params = prefix"
proof -
  have "normalizedParts params = []"
    by (simp add: normalizedParts_def normalizedPart_None [OF assms] filter_empty_conv)
  then show ?thesis by (simp add: generateKey_def)
qed

text \<open>An object with a \<open>null\<close> and an \<open>undefined\<close> value, and the empty object.\<close>
theorem generateKey_bare_prefix_witness:
  "generateKey ''emdex_search'' [(''a'', JNull), (''b'', JUndefined)] = ''emdex_search'' \<and>
   generateKey ''emdex_search'' [] = ''emdex_search''"
proof -
  have h: "\<forall>(k, v) \<in> set [(''a'', JNull), (''b'', JUndefined)]. v = JNull \<or> v = JUndefined"
    by simp
  have e: "\<forall>(k, v) \<in> set ([] :: (string \<times> jsval) list). v = JNull \<or> v = JUndefined"
    by simp
  from generateKey_bare_prefix [OF h, of "''emdex_search''"]
       generateKey_bare_prefix [OF e, of "''emdex_search''"]
  show ?thesis by (rule conjI)
qed


lemma normalizedParts_pairs: "normalizedParts params = key_value_pairs params"
proof -
  have "map the (filter (\<lambda>part. part \<noteq> None) (map (normalizedPart params) ks)) =
        map (\<lambda>k. k @ ''='' @ trim (toLowerCase (String (param_at params k))))
          (filter (\<lambda>k. param_at params k \<noteq> JNull \<and> param_at params k \<noteq> JUndefined) ks)" for ks
    by (induction ks) (auto simp: normalizedPart_def Let_def)
  then show ?thesis by (simp add: normalizedParts_def key_value_pairs_def)
qed

lemma join_empty_iff:
  "\<forall>p \<in> set parts. p \<noteq> [] \<Longrightarrow> join sep parts = [] \<longleftrightarrow> parts = []"
  by (induction sep parts rule: join.induct) auto

lemma pairs_nonempty: "\<forall>p \<in> set (key_value_pairs params). p \<noteq> []"
  by (auto simp: key_value_pairs_def)

lemma generateKey_pairs:
  "generateKey prefix params =
     (if key_value_pairs params = [] then prefix
      else prefix @ ''_'' @ join ''_'' (key_value_pairs params))"
  using join_empty_iff [OF pairs_nonempty, of "''_''" params]
  by (simp add: generateKey_def normalizedParts_pairs Let_def)

lemma same_bindings:
  assumes "distinct (map fst ps)" "distinct (map fst qs)" "set ps = set qs"
  shows "sort (map fst ps) = sort (map fst qs)" and "param_at ps = param_at qs"
proof -
  have "set (map fst ps) = set (map fst qs)" using assms(3) by simp
  then have "mset (map fst ps) = mset (map fst qs)"
    using set_eq_iff_mset_eq_distinct [OF assms(1,2)] by blast
  then show "sort (map fst ps) = sort (map fst qs)"
    by (metis mset_sort properties_for_sort sorted_sort)
  have "map_of ps = map_of qs" using assms by (simp add: map_of_inject_set)
  then show "param_at ps = param_at qs" by (simp add: param_at_def fun_eq_iff)
qed

text \<open>
  Claim C7 describes the key, for every prefix and every parameter object, as the prefix
  and \<open>_\<close> put before the joined \<open>key=value\<close> pairs. With no pair to join the
  code returns the prefix alone: \<open>generateKey("p", {})\<close> is \<open>p\<close>, not \<open>p_\<close>.
\<close>
theorem generateKey_bare_counterexample:
  "generateKey ''p'' [] = ''p'' \<and>
   generateKey ''p'' [] \<noteq> ''p'' @ ''_'' @ join ''_'' (key_value_pairs [])"
  by (simp add: generateKey_def normalizedParts_def key_value_pairs_def)

text \<open>
  Claim C7, amended. \<open>generateKey\<close> does not depend on the order in which the
  parameters were inserted: two parameter objects with the same properties give the same
  key. The key is built from the \<open>key=value\<close> pairs of the parameters taken in the
  sorted order of their names, those with a \<open>null\<close> or \<open>undefined\<close> value skipped
  and every other value stringified, lowercased and trimmed: when at least one pair
  remains, the key is the prefix, \<open>_\<close>, and the pairs joined with \<open>_\<close>; when none
  remains, it is the prefix alone.
\<close>
theorem generateKey_order_independent:
  assumes "distinct (map fst ps)" and "distinct (map fst qs)" and "set ps = set qs"
  shows "generateKey prefix ps = generateKey prefix qs \<and>
         generateKey prefix ps =
           (if key_value_pairs ps = [] then prefix
            else prefix @ ''_'' @ join ''_'' (key_value_pairs ps))"
proof -
  have "key_value_pairs ps = key_value_pairs qs"
    by (simp add: key_value_pairs_def same_bindings [OF assms])
  then show ?thesis by (simp add: generateKey_pairs)
qed

text \<open>
  \<open>generateKey("p", {b: "2", a: "1"})\<close> and \<open>generateKey("p", {a: "1", b: "2"})\<close>
  are both \<open>p_a=1_b=2\<close>.
\<close>
theorem generateKey_order_independent_witness:
  "distinct (map fst [(''b'', JStr ''2''), (''a'', JStr ''1'')]) \<and>
   distinct (map fst [(''a'', JStr ''1''), (''b'', JStr ''2'')]) \<and>
   set [(''b'', JStr ''2''), (''a'', JStr ''1'')] = set [(''a'', JStr ''1''), (''b'', JStr ''2'')] \<and>
   generateKey ''p'' [(''b'', JStr ''2''), (''a'', JStr ''1'')] =
     generateKey ''p'' [(''a'', JStr ''1''), (''b'', JStr ''2'')] \<and>
   generateKey ''p'' [(''a'', JStr ''1''), (''b'', JStr ''2'')] = ''p_a=1_b=2''"
proof -
  have d1: "distinct (map fst [(''b'', JStr ''2''), (''a'', JStr ''1'')])" by simp
  have d2: "distinct (map fst [(''a'', JStr ''1''), (''b'', JStr ''2'')])" by simp
  have s: "set [(''b'', JStr ''2''), (''a'', JStr ''1'')] = set [(''a'', JStr ''1''), (''b'', JStr ''2'')]"
    by auto
  have v: "generateKey ''p'' [(''a'', JStr ''1''), (''b'', JStr ''2'')] = ''p_a=1_b=2''"
    by (simp add: generateKey_def normalizedParts_def normalizedPart_def param_at_def
        trim_def toLowerCase_def lower_char_def upper_letters_def lower_letters_def is_space_def)
  from generateKey_order_independent [OF d1 d2 s, of "''p''"] d1 d2 s v
  show ?thesis by blast
qed


section \<open>Properties of the token\<close>

lemma valid_token_tick: "valid_token (tick s) now = valid_token s now"
  by (simp add: valid_token_def tick_def split: option.splits)

lemma tick_fields:
  "logins (tick s) = logins s" "requests (tick s) = requests s" "cache (tick s) = cache s"
  "cachedToken (tick s) = cachedToken s" "tokenExpiresAt (tick s) = tokenExpiresAt s"
  "ticks (tick s) = Suc (ticks s)"
  by (simp_all add: tick_def)

lemma getToken_valid:
  "valid_token s (Date_now w s) = Some t \<Longrightarrow> getToken w s = (Inr t, tick s)"
  by (simp add: getToken_def Let_def valid_token_tick)

lemma getToken_unconfigured:
  "valid_token s (Date_now w s) = None \<Longrightarrow> \<not> configured w \<Longrightarrow>
   getToken w s = (Inl (EmdexError AUTH_FAILED), tick s)"
  by (auto simp: getToken_def Let_def configured_def valid_token_tick)

lemma getToken_login:
  "valid_token s (Date_now w s) = None \<Longrightarrow> configured w \<Longrightarrow>
   getToken w s =
     (case login w (Date_now w s) (tick s) of
        (Inr t, s1) \<Rightarrow> (Inr t, s1)
      | (Inl e, s1) \<Rightarrow> (Inl (wrap_network e), s1\<lparr>cachedToken := None, tokenExpiresAt := None\<rparr>))"
  by (simp add: getToken_def Let_def configured_def valid_token_tick)

lemma login_logins: "logins (snd (login w now s)) = Suc (logins s)"
  by (simp add: login_def Let_def split: fetch_result.splits option.splits login_body.splits)

lemma login_success:
  "login_fetch w (logins s) = Response status (Some (Fields d)) \<Longrightarrow> ok status \<Longrightarrow>
   token_of d = Some tok \<Longrightarrow> tok \<noteq> [] \<Longrightarrow>
   login w now s =
     (Inr tok, s\<lparr>logins := Suc (logins s), tokenExpiresAt := Some (now + expiresIn_of d * 1000),
                 cachedToken := Some tok\<rparr>)"
  by (simp add: login_def Let_def)

lemma stated_lifetime:
  "expires_in d = Some n \<and> n \<noteq> 0 \<or>
   expires_in d = None \<and> expiresIn d = Some n \<and> n \<noteq> 0 \<or>
   expires_in d = None \<and> expiresIn d = None \<and> n = 3600 \<Longrightarrow>
   expiresIn_of d = n"
  by (auto simp: expiresIn_of_def)

lemma valid_token_iff:
  "0 \<le> now \<Longrightarrow>
   valid_token s now = Some t \<longleftrightarrow>
     cachedToken s = Some t \<and> t \<noteq> [] \<and> (\<exists>e. tokenExpiresAt s = Some e \<and> now < e - 60000)"
  by (auto simp: valid_token_def split: option.splits if_splits)

text \<open>
  Claim C3 says that a call which cannot return a cached token performs exactly one
  login. When a setting is missing, \<open>getToken\<close> fails before it sends anything: in
  the unconfigured world the freshly started process has no token, the call fails with
  \<open>AUTH_FAILED\<close>, and no login request has been sent.
\<close>
theorem getToken_no_login_counterexample:
  "valid_token init_state (Date_now unconfigured_world init_state) = None \<and>
   getToken unconfigured_world init_state = (Inl (EmdexError AUTH_FAILED), tick init_state) \<and>
   logins (snd (getToken unconfigured_world init_state)) = logins init_state"
  by (simp add: getToken_def Let_def valid_token_def init_state_def unconfigured_world_def
      demo_world_def truthy_str_def tick_def)

text \<open>
  Claim C3, amended. A call of \<open>getToken\<close> at time \<open>now\<close>:
  \<^item> with a cached token and \<open>now < expiresAt - 60000\<close>, returns that token and
    sends no login request;
  \<^item> otherwise, with a setting missing, fails with \<open>AUTH_FAILED\<close> and sends no
    login request;
  \<^item> otherwise sends exactly one login request, and when the answer is a success
    carrying a token, stores the token with \<open>expiresAt = now + expiresIn * 1000\<close> and
    returns it, where \<open>expiresIn\<close> is the lifetime the answer states (its
    \<open>expires_in\<close>, else its \<open>expiresIn\<close>) and \<open>3600\<close> when the answer omits it.
  The last part reads the test of the cached token for a clock that is not negative.
  Nothing is said here of an answer that states a lifetime of \<open>0\<close>.
\<close>
theorem getToken_cached_or_login:
  "(valid_token s (Date_now w s) = Some t \<longrightarrow>
      getToken w s = (Inr t, tick s) \<and> logins (snd (getToken w s)) = logins s) \<and>
   (valid_token s (Date_now w s) = None \<and> \<not> configured w \<longrightarrow>
      getToken w s = (Inl (EmdexError AUTH_FAILED), tick s) \<and>
      logins (snd (getToken w s)) = logins s) \<and>
   (valid_token s (Date_now w s) = None \<and> configured w \<longrightarrow>
      logins (snd (getToken w s)) = Suc (logins s)) \<and>
   (valid_token s (Date_now w s) = None \<and> configured w \<and>
    login_fetch w (logins s) = Response status (Some (Fields d)) \<and> ok status \<and>
    token_of d = Some tok \<and> tok \<noteq> [] \<and>
    (expires_in d = Some n \<and> n \<noteq> 0 \<or>
     expires_in d = None \<and> expiresIn d = Some n \<and> n \<noteq> 0 \<or>
     expires_in d = None \<and> expiresIn d = None \<and> n = 3600) \<longrightarrow>
      getToken w s =
        (Inr tok, (tick s)\<lparr>logins := Suc (logins s),
                            tokenExpiresAt := Some (Date_now w s + n * 1000),
                            cachedToken := Some tok\<rparr>)) \<and>
   (0 \<le> now \<longrightarrow>
      (valid_token s now = Some t \<longleftrightarrow>
         cachedToken s = Some t \<and> t \<noteq> [] \<and>
         (\<exists>e. tokenExpiresAt s = Some e \<and> now < e - 60000)))"
proof -
  have a: "valid_token s (Date_now w s) = None \<and> configured w \<longrightarrow>
      logins (snd (getToken w s)) = Suc (logins s)"
    using login_logins [of w "Date_now w s" "tick s"]
    by (auto simp: getToken_login tick_fields split: prod.splits sum.splits)
  have b: "valid_token s (Date_now w s) = None \<and> configured w \<and>
    login_fetch w (logins s) = Response status (Some (Fields d)) \<and> ok status \<and>
    token_of d = Some tok \<and> tok \<noteq> [] \<and>
    (expires_in d = Some n \<and> n \<noteq> 0 \<or>
     expires_in d = None \<and> expiresIn d = Some n \<and> n \<noteq> 0 \<or>
     expires_in d = None \<and> expiresIn d = None \<and> n = 3600) \<longrightarrow>
      getToken w s =
        (Inr tok, (tick s)\<lparr>logins := Suc (logins s),
                            tokenExpiresAt := Some (Date_now w s + n * 1000),
                            cachedToken := Some tok\<rparr>)"
  proof (intro impI, elim conjE)
    assume v: "valid_token s (Date_now w s) = None" and c: "configured w"
      and f: "login_fetch w (logins s) = Response status (Some (Fields d))" and k: "ok status"
      and t: "token_of d = Some tok" and ne: "tok \<noteq> []"
      and l: "expires_in d = Some n \<and> n \<noteq> 0 \<or>
              expires_in d = None \<and> expiresIn d = Some n \<and> n \<noteq> 0 \<or>
              expires_in d = None \<and> expiresIn d = None \<and> n = 3600"
    have f': "login_fetch w (logins (tick s)) = Response status (Some (Fields d))"
      using f by (simp add: tick_fields)
    show "getToken w s =
        (Inr tok, (tick s)\<lparr>logins := Suc (logins s),
                            tokenExpiresAt := Some (Date_now w s + n * 1000),
                            cachedToken := Some tok\<rparr>)"
      by (simp add: getToken_login [OF v c] login_success [OF f' k t ne]
          stated_lifetime [OF l] tick_fields)
  qed
  show ?thesis
    using a b valid_token_iff [of now s t]
    by (simp add: getToken_valid getToken_unconfigured tick_fields)
qed

text \<open>
  The first call logs in and stores the token for the default hour; a second call at the
  same time returns the same token without a login request.
\<close>
theorem getToken_cached_or_login_witness:
  "valid_token init_state (Date_now (demo_world login_ok Throws) init_state) = None \<and>
   configured (demo_world login_ok Throws) \<and>
   getToken (demo_world login_ok Throws) init_state = (Inr ''tok1'', after_login) \<and>
   tokenExpiresAt after_login = Some (1000000 + 3600 * 1000) \<and>
   valid_token after_login (Date_now (demo_world login_ok Throws) after_login) = Some ''tok1'' \<and>
   getToken (demo_world login_ok Throws) after_login = (Inr ''tok1'', tick after_login) \<and>
   logins (snd (getToken (demo_world login_ok Throws) after_login)) = logins after_login"
proof -
  let ?w = "demo_world login_ok Throws"
  let ?d = "\<lparr>token = Some ''tok1'', access_token = None, expires_in = None, expiresIn = None\<rparr>"
  have v0: "valid_token init_state (Date_now ?w init_state) = None"
    by (simp add: valid_token_def init_state_def)
  have cf: "configured ?w" by (simp add: configured_def demo_world_def truthy_str_def)
  have lf: "login_fetch ?w (logins init_state) = Response 200 (Some (Fields ?d))"
    by (simp add: demo_world_def login_ok_def)
  have k: "ok 200" by (simp add: ok_def)
  have tk: "token_of ?d = Some ''tok1''" by (simp add: token_of_def truthy_str_def)
  have ne: "''tok1'' \<noteq> []" by simp
  have ex: "expires_in ?d = None \<and> expiresIn ?d = None \<and> (3600::int) = 3600" by simp
  have n0: "Date_now ?w init_state = 1000000" by (simp add: Date_now_def demo_world_def)
  have v1: "valid_token after_login (Date_now ?w after_login) = Some ''tok1''"
    by (simp add: valid_token_def after_login_def Date_now_def demo_world_def)
  note th0 = getToken_cached_or_login [where s = init_state and w = ?w and status = 200
      and d = ?d and tok = "''tok1''" and n = 3600]
  note th1 = getToken_cached_or_login [where s = after_login and w = ?w and t = "''tok1''"]
  from th0 v0 cf lf k tk ne ex
  have "getToken ?w init_state =
        (Inr ''tok1'', (tick init_state)\<lparr>logins := Suc (logins init_state),
            tokenExpiresAt := Some (Date_now ?w init_state + 3600 * 1000),
            cachedToken := Some ''tok1''\<rparr>)"
    by blast
  then have g0: "getToken ?w init_state = (Inr ''tok1'', after_login)"
    unfolding n0 by (simp add: tick_def init_state_def after_login_def)
  from th1 v1 have g1: "getToken ?w after_login = (Inr ''tok1'', tick after_login) \<and>
      logins (snd (getToken ?w after_login)) = logins after_login"
    by blast
  have e: "tokenExpiresAt after_login = Some (1000000 + 3600 * 1000)"
    by (simp add: after_login_def)
  from v0 cf g0 e v1 g1 show ?thesis by blast
qed

lemma login_error_cases:
  assumes "login w now s = (Inl e, s1)"
  shows "(e = EmdexError AUTH_FAILED \<or> e = OtherError) \<and>
         (login_fetch w (logins s) = Throws \<longrightarrow> e = OtherError) \<and>
         (\<forall>status body. login_fetch w (logins s) = Response status body \<and> \<not> ok status \<longrightarrow>
            e = EmdexError AUTH_FAILED) \<and>
         (\<forall>status. login_fetch w (logins s) = Response status None \<and> ok status \<longrightarrow>
            e = OtherError) \<and>
         (\<forall>status. login_fetch w (logins s) = Response status (Some JsonNull) \<and> ok status \<longrightarrow>
            e = OtherError) \<and>
         (\<forall>status d. login_fetch w (logins s) = Response status (Some (Fields d)) \<and> ok status \<longrightarrow>
            e = EmdexError AUTH_FAILED)"
  using assms
  by (auto simp: login_def Let_def
      split: fetch_result.splits option.splits if_splits login_body.splits)

lemma getToken_failure_cases:
  assumes "getToken w s = (Inl e, s')"
  shows "(e = EmdexError AUTH_FAILED \<or> e = EmdexError NETWORK_ERROR) \<and>
         (\<not> configured w \<longrightarrow> e = EmdexError AUTH_FAILED \<and> s' = tick s) \<and>
         (configured w \<longrightarrow> cachedToken s' = None \<and> tokenExpiresAt s' = None) \<and>
         (configured w \<and> login_fetch w (logins s) = Throws \<longrightarrow>
            e = EmdexError NETWORK_ERROR) \<and>
         (configured w \<and> (\<exists>status body. login_fetch w (logins s) = Response status body \<and>
                                          \<not> ok status) \<longrightarrow>
            e = EmdexError AUTH_FAILED) \<and>
         (configured w \<and> (\<exists>status. login_fetch w (logins s) = Response status None \<and>
                                     ok status) \<longrightarrow>
            e = EmdexError NETWORK_ERROR) \<and>
         (configured w \<and> (\<exists>status. login_fetch w (logins s) = Response status (Some JsonNull) \<and>
                                     ok status) \<longrightarrow>
            e = EmdexError NETWORK_ERROR) \<and>
         (configured w \<and> (\<exists>status d. login_fetch w (logins s) =
                                         Response status (Some (Fields d)) \<and> ok status) \<longrightarrow>
            e = EmdexError AUTH_FAILED)"
proof (cases "valid_token s (Date_now w s)")
  case (Some t)
  with assms show ?thesis by (simp add: getToken_valid)
next
  case None
  show ?thesis
  proof (cases "configured w")
    case False
    with None assms show ?thesis by (auto simp: getToken_unconfigured)
  next
    case True
    obtain r s1 where l: "login w (Date_now w s) (tick s) = (r, s1)"
      by (cases "login w (Date_now w s) (tick s)")
    with None True assms obtain e0 where r: "r = Inl e0" and e: "e = wrap_network e0"
      and s': "s' = s1\<lparr>cachedToken := None, tokenExpiresAt := None\<rparr>"
      by (cases r) (auto simp: getToken_login)
    from login_error_cases [OF l [unfolded r]] e s' True show ?thesis
      by (auto simp: tick_fields)
  qed
qed

subsection \<open>A process without its settings never holds a token\<close>

lemma no_token_tick: "no_token (tick s) = no_token s"
  by (simp add: no_token_def tick_fields)

lemma getToken_no_token:
  assumes "\<not> configured w" and "no_token s"
  shows "getToken w s = (Inl (EmdexError AUTH_FAILED), tick s)"
proof -
  from assms(2) have "valid_token s (Date_now w s) = None"
    by (simp add: no_token_def valid_token_def)
  then show ?thesis using assms(1) by (rule getToken_unconfigured)
qed

lemma emdexRequest_no_token:
  assumes "\<not> configured w" and "no_token s"
  shows "no_token (snd (emdexRequest w endpoint body isRetry s))"
  using assms(2)
  by (subst emdexRequest.simps)
     (simp add: getToken_no_token [OF assms] no_token_tick)

lemma cachedEmdexRequest_no_token:
  assumes "\<not> configured w" and "no_token s"
  shows "no_token (snd (cachedEmdexRequest w endpoint body ttlSeconds s))"
proof -
  let ?key = "generateKey (''emdex'' @ replace_slashes endpoint) body"
  let ?s1 = "tick (s\<lparr>cache := snd (get ?key (Date_now w s) (cache s))\<rparr>)"
  have n1: "no_token ?s1" using assms(2) by (simp add: no_token_def tick_def)
  have n2: "no_token (snd (emdexRequest w endpoint body False ?s1))"
    by (rule emdexRequest_no_token [OF assms(1) n1])
  have up: "no_token (tick (x\<lparr>cache := c\<rparr>)) = no_token x" for x c
    by (simp add: no_token_def tick_def)
  show ?thesis
  proof (cases "truthy (fst (get ?key (Date_now w s) (cache s)))")
    case True
    then show ?thesis
      using n1 by (simp add: cachedEmdexRequest_def Let_def split_beta up)
  next
    case False
    obtain r s2 where er: "emdexRequest w endpoint body False ?s1 = (r, s2)"
      by (cases "emdexRequest w endpoint body False ?s1")
    with n2 have n: "no_token s2" by simp
    show ?thesis
      using False er n
      by (cases r) (simp_all add: cachedEmdexRequest_def Let_def split_beta up)
  qed
qed

lemma svc_exec_no_token:
  assumes "\<not> configured w" and "no_token s"
  shows "no_token (svc_exec w x s)"
proof (cases x)
  case SGetToken
  then show ?thesis using assms by (simp add: getToken_no_token no_token_tick)
next
  case (SRequest endpoint body isRetry)
  then show ?thesis using assms by (simp add: emdexRequest_no_token)
next
  case (SCachedRequest endpoint body ttlSeconds)
  then show ?thesis using assms by (simp add: cachedEmdexRequest_no_token)
next
  case SClearTokenCache
  then show ?thesis by (simp add: clearTokenCache_def no_token_def)
next
  case SClearResponseCache
  then show ?thesis using assms(2) by (simp add: clearResponseCache_def no_token_def)
qed

lemma svc_run_no_token:
  "\<not> configured w \<Longrightarrow> no_token s \<Longrightarrow> no_token (svc_run w ops s)"
  by (induction ops arbitrary: s) (simp_all add: svc_exec_no_token)

lemma init_no_token: "no_token init_state"
  by (simp add: no_token_def init_state_def)

text \<open>
  Claim C5. Take any state a process has reached from its start by calls of the module
  in one world. A call of \<open>getToken\<close> that fails there leaves no stored token and no
  stored expiry, and its error is classified: \<open>AUTH_FAILED\<close> when a setting is
  missing and when the login request is rejected, \<open>NETWORK_ERROR\<close> when the login
  request fails in transport. The other failures are classified too: a successful
  answer that is not JSON, or is JSON \<open>null\<close>, gives \<open>NETWORK_ERROR\<close>, and one
  without a token gives \<open>AUTH_FAILED\<close>.
\<close>
theorem getToken_failure_classified:
  assumes "getToken w (svc_run w ops init_state) = (Inl e, s')"
  shows "cachedToken s' = None \<and> tokenExpiresAt s' = None \<and>
         (e = EmdexError AUTH_FAILED \<or> e = EmdexError NETWORK_ERROR) \<and>
         (\<not> configured w \<longrightarrow> e = EmdexError AUTH_FAILED) \<and>
         (configured w \<and> login_fetch w (logins (svc_run w ops init_state)) = Throws \<longrightarrow>
            e = EmdexError NETWORK_ERROR) \<and>
         (configured w \<and>
          (\<exists>status body. login_fetch w (logins (svc_run w ops init_state)) = Response status body \<and>
                          \<not> ok status) \<longrightarrow>
            e = EmdexError AUTH_FAILED) \<and>
         (configured w \<and>
          (\<exists>status. login_fetch w (logins (svc_run w ops init_state)) = Response status None \<and>
                     ok status) \<longrightarrow>
            e = EmdexError NETWORK_ERROR) \<and>
         (configured w \<and>
          (\<exists>status. login_fetch w (logins (svc_run w ops init_state)) =
                       Response status (Some JsonNull) \<and> ok status) \<longrightarrow>
            e = EmdexError NETWORK_ERROR) \<and>
         (configured w \<and>
          (\<exists>status d. login_fetch w (logins (svc_run w ops init_state)) =
                         Response status (Some (Fields d)) \<and> ok status) \<longrightarrow>
            e = EmdexError AUTH_FAILED)"
proof -
  let ?s = "svc_run w ops init_state"
  note cases = getToken_failure_cases [OF assms]
  have "cachedToken s' = None \<and> tokenExpiresAt s' = None"
  proof (cases "configured w")
    case True
    with cases show ?thesis by blast
  next
    case False
    then have "no_token ?s" using init_no_token by (rule svc_run_no_token)
    moreover from False cases have "s' = tick ?s" by blast
    ultimately show ?thesis by (simp add: no_token_def tick_fields)
  qed
  then have "cachedToken s' = None" and "tokenExpiresAt s' = None" by simp_all
  moreover from cases
  have "e = EmdexError AUTH_FAILED \<or> e = EmdexError NETWORK_ERROR" by (elim conjE)
  moreover from cases have "\<not> configured w \<longrightarrow> e = EmdexError AUTH_FAILED" by simp
  moreover note cases [THEN conjunct2, THEN conjunct2, THEN conjunct2]
  ultimately show ?thesis by (intro conjI) (elim conjE; assumption)+
qed

text \<open>
  A process fetches a token that is already inside the refresh buffer; its next call has
  to log in again, finds the network down, fails with \<open>NETWORK_ERROR\<close> and holds no
  token afterwards. A process without its settings fails with \<open>AUTH_FAILED\<close> and
  holds no token.
\<close>
theorem getToken_failure_classified_witness:
  "svc_run flaky_world [SGetToken] init_state = short_lived_state \<and>
   cachedToken short_lived_state = Some ''tok1'' \<and>
   configured flaky_world \<and>
   login_fetch flaky_world (logins (svc_run flaky_world [SGetToken] init_state)) = Throws \<and>
   getToken flaky_world (svc_run flaky_world [SGetToken] init_state) =
     (Inl (EmdexError NETWORK_ERROR),
      short_lived_state\<lparr>cachedToken := None, tokenExpiresAt := None, logins := 2, ticks := 2\<rparr>) \<and>
   cachedToken (snd (getToken flaky_world (svc_run flaky_world [SGetToken] init_state))) = None \<and>
   tokenExpiresAt (snd (getToken flaky_world (svc_run flaky_world [SGetToken] init_state))) = None \<and>
   getToken unconfigured_world (svc_run unconfigured_world [] init_state) =
     (Inl (EmdexError AUTH_FAILED), tick init_state) \<and>
   cachedToken (tick init_state) = None \<and> tokenExpiresAt (tick init_state) = None"
proof -
  let ?s' = "short_lived_state\<lparr>cachedToken := None, tokenExpiresAt := None, logins := 2, ticks := 2\<rparr>"
  have r: "svc_run flaky_world [SGetToken] init_state = short_lived_state"
    by (simp add: getToken_def Let_def valid_token_def init_state_def login_def login_short_def
        flaky_world_def demo_world_def truthy_str_def tick_def Date_now_def ok_def token_of_def
        expiresIn_of_def short_lived_state_def)
  have g0: "getToken flaky_world short_lived_state = (Inl (EmdexError NETWORK_ERROR), ?s')"
    by (simp add: getToken_def Let_def valid_token_def login_def
        flaky_world_def demo_world_def truthy_str_def tick_def Date_now_def short_lived_state_def)
  have g: "getToken flaky_world (svc_run flaky_world [SGetToken] init_state) =
      (Inl (EmdexError NETWORK_ERROR), ?s')"
    unfolding r by (rule g0)
  have cf: "configured flaky_world"
    by (simp add: configured_def flaky_world_def demo_world_def truthy_str_def)
  have lf: "login_fetch flaky_world (logins (svc_run flaky_world [SGetToken] init_state)) = Throws"
    unfolding r by (simp add: flaky_world_def short_lived_state_def)
  have tk: "cachedToken short_lived_state = Some ''tok1''" by (simp add: short_lived_state_def)
  from getToken_failure_classified [OF g]
  have cl: "cachedToken ?s' = None \<and> tokenExpiresAt ?s' = None" by blast
  have u: "getToken unconfigured_world (svc_run unconfigured_world [] init_state) =
     (Inl (EmdexError AUTH_FAILED), tick init_state)"
    by (simp add: getToken_def Let_def valid_token_def init_state_def unconfigured_world_def
      demo_world_def truthy_str_def tick_def)
  from getToken_failure_classified [OF u]
  have cu: "cachedToken (tick init_state) = None \<and> tokenExpiresAt (tick init_state) = None"
    by blast
  from r tk cf lf g cl cu u show ?thesis by simp
qed


section \<open>Properties of the requests\<close>

subsection \<open>The retry\<close>

lemma login_frame:
  "requests (snd (login w now s)) = requests s \<and> cache (snd (login w now s)) = cache s \<and>
   ticks (snd (login w now s)) = ticks s"
  by (simp add: login_def Let_def split: fetch_result.splits option.splits login_body.splits)

lemma getToken_frame:
  "requests (snd (getToken w s)) = requests s \<and> cache (snd (getToken w s)) = cache s"
  using login_frame [of w "Date_now w s" "tick s"]
  by (auto simp: getToken_def Let_def tick_fields split: option.splits prod.splits sum.splits)

lemma emdexRequest_retry_frame:
  "requests (snd (emdexRequest w endpoint body True s)) \<le> Suc (requests s) \<and>
   cache (snd (emdexRequest w endpoint body True s)) = cache s"
  using getToken_frame [of w s]
  by (subst (1 2) emdexRequest.simps)
     (auto simp: Let_def split: prod.splits sum.splits fetch_result.splits option.splits)

lemma emdexRequest_unauthorized:
  assumes "\<not> USE_MOCK w" and "truthy_str (EMDEX_API_URL w)"
    and "getToken w s = (Inr tok, s1)" and "data_fetch w (requests s1) = Response 401 rbody"
  shows "emdexRequest w endpoint body False s =
         emdexRequest w endpoint body True
           (s1\<lparr>requests := Suc (requests s1), cachedToken := None, tokenExpiresAt := None\<rparr>)"
  using assms by (subst emdexRequest.simps) (simp add: Let_def)

lemma emdexRequest_retry_rejected:
  assumes "\<not> USE_MOCK w" and "truthy_str (EMDEX_API_URL w)"
    and "getToken w s = (Inr tok, s1)" and "data_fetch w (requests s1) = Response status rbody"
    and "\<not> ok status"
  shows "emdexRequest w endpoint body True s =
         (Inl (EmdexError REQUEST_FAILED), s1\<lparr>requests := Suc (requests s1)\<rparr>)"
  using assms by (subst emdexRequest.simps) (simp add: Let_def)

lemma emdexRequest_frame:
  "requests (snd (emdexRequest w endpoint body isRetry s)) \<le> requests s + (if isRetry then 1 else 2) \<and>
   cache (snd (emdexRequest w endpoint body isRetry s)) = cache s"
proof (cases isRetry)
  case True
  then show ?thesis using emdexRequest_retry_frame [of w endpoint body s] by simp
next
  case False
  have "requests (snd (emdexRequest w endpoint body False s)) \<le> requests s + 2 \<and>
        cache (snd (emdexRequest w endpoint body False s)) = cache s"
  proof (cases "getToken w s")
    case (Pair r s1)
    note gf = getToken_frame [of w s, unfolded Pair, simplified]
    show ?thesis
    proof (cases r)
      case (Inl e)
      with Pair gf show ?thesis
        by (subst (1 2) emdexRequest.simps) simp
    next
      case (Inr tok)
      let ?s2 = "s1\<lparr>requests := Suc (requests s1)\<rparr>"
      note rf = emdexRequest_retry_frame [of w endpoint body
          "?s2\<lparr>cachedToken := None, tokenExpiresAt := None\<rparr>"]
      from Pair Inr gf rf show ?thesis
        by (subst (1 2) emdexRequest.simps)
           (auto simp: Let_def split: fetch_result.splits option.splits)
    qed
  qed
  with False show ?thesis by simp
qed


text \<open>
  Claim C2. A call of \<open>emdexRequest\<close> sends at most two data requests when entered
  with \<open>isRetry = false\<close> and at most one when entered with \<open>isRetry = true\<close>.
  When the call entered with \<open>isRetry = false\<close> gets a token and the data request is
  answered with status 401, it clears the cached token and its result is that of one
  call with \<open>isRetry = true\<close> from there; and when that retry gets a token and its data
  request is answered with a status outside 200 to 299 (401 again, or any other), the
  call fails with \<open>REQUEST_FAILED\<close>, two data requests having been sent.
\<close>
theorem emdexRequest_retries_once:
  "requests (snd (emdexRequest w endpoint body False s)) \<le> requests s + 2 \<and>
   requests (snd (emdexRequest w endpoint body True s)) \<le> requests s + 1 \<and>
   (\<not> USE_MOCK w \<and> truthy_str (EMDEX_API_URL w) \<and> getToken w s = (Inr tok, s1) \<and>
    data_fetch w (requests s1) = Response 401 rbody \<longrightarrow>
      emdexRequest w endpoint body False s =
        emdexRequest w endpoint body True
          (s1\<lparr>requests := Suc (requests s1), cachedToken := None, tokenExpiresAt := None\<rparr>) \<and>
      (getToken w (s1\<lparr>requests := Suc (requests s1), cachedToken := None,
                       tokenExpiresAt := None\<rparr>) = (Inr tok', s3) \<and>
       data_fetch w (requests s3) = Response status rbody' \<and> \<not> ok status \<longrightarrow>
         emdexRequest w endpoint body False s =
           (Inl (EmdexError REQUEST_FAILED), s3\<lparr>requests := Suc (requests s3)\<rparr>) \<and>
         requests (snd (emdexRequest w endpoint body False s)) = requests s + 2))"
proof -
  have b2: "requests (snd (emdexRequest w endpoint body False s)) \<le> requests s + 2"
    using emdexRequest_frame [of w endpoint body False s] by simp
  have b1: "requests (snd (emdexRequest w endpoint body True s)) \<le> requests s + 1"
    using emdexRequest_frame [of w endpoint body True s] by simp
  {
    assume m: "\<not> USE_MOCK w" and u: "truthy_str (EMDEX_API_URL w)"
      and g: "getToken w s = (Inr tok, s1)"
      and d: "data_fetch w (requests s1) = Response 401 rbody"
    let ?sr = "s1\<lparr>requests := Suc (requests s1), cachedToken := None, tokenExpiresAt := None\<rparr>"
    have r: "emdexRequest w endpoint body False s = emdexRequest w endpoint body True ?sr"
      by (rule emdexRequest_unauthorized [OF m u g d])
    {
      assume g': "getToken w ?sr = (Inr tok', s3)"
        and d': "data_fetch w (requests s3) = Response status rbody'" and nok: "\<not> ok status"
      have e: "emdexRequest w endpoint body False s =
           (Inl (EmdexError REQUEST_FAILED), s3\<lparr>requests := Suc (requests s3)\<rparr>)"
        unfolding r by (rule emdexRequest_retry_rejected [OF m u g' d' nok])
      have "requests s1 = requests s" using getToken_frame [of w s] g by simp
      moreover have "requests s3 = requests ?sr" using getToken_frame [of w ?sr] g' by simp
      ultimately have "requests (snd (emdexRequest w endpoint body False s)) = requests s + 2"
        unfolding e by simp
      note e this
    }
    note r this
  }
  with b1 b2 show ?thesis by blast
qed

text \<open>
  An upstream that accepts every login and answers every data request with 401: one
  retry, two logins, two data requests, and \<open>REQUEST_FAILED\<close>.
\<close>
theorem emdexRequest_retries_once_witness:
  "\<not> USE_MOCK (demo_world login_ok (Response 401 None)) \<and>
   truthy_str (EMDEX_API_URL (demo_world login_ok (Response 401 None))) \<and>
   getToken (demo_world login_ok (Response 401 None)) init_state = (Inr ''tok1'', after_login) \<and>
   data_fetch (demo_world login_ok (Response 401 None)) (requests after_login) = Response 401 None \<and>
   cachedToken retry_state = None \<and>
   getToken (demo_world login_ok (Response 401 None)) retry_state = (Inr ''tok1'', after_relogin) \<and>
   \<not> ok 401 \<and>
   emdexRequest (demo_world login_ok (Response 401 None)) ''/api/v1/verify'' [] False init_state =
     (Inl (EmdexError REQUEST_FAILED), after_relogin\<lparr>requests := 2\<rparr>)"
proof -
  let ?w = "demo_world login_ok (Response 401 None)"
  have m: "\<not> USE_MOCK ?w" by (simp add: demo_world_def)
  have u: "truthy_str (EMDEX_API_URL ?w)" by (simp add: demo_world_def truthy_str_def)
  have g: "getToken ?w init_state = (Inr ''tok1'', after_login)"
    by (simp add: getToken_def Let_def valid_token_def init_state_def login_def login_ok_def
        demo_world_def truthy_str_def tick_def Date_now_def ok_def token_of_def
        expiresIn_of_def after_login_def)
  have d: "data_fetch ?w (requests after_login) = Response 401 None" by (simp add: demo_world_def)
  have sr: "after_login\<lparr>requests := Suc (requests after_login), cachedToken := None,
              tokenExpiresAt := None\<rparr> = retry_state"
    by (simp add: retry_state_def after_login_def)
  have g': "getToken ?w retry_state = (Inr ''tok1'', after_relogin)"
    by (simp add: getToken_def Let_def valid_token_def retry_state_def login_def login_ok_def
        demo_world_def truthy_str_def tick_def Date_now_def ok_def token_of_def
        expiresIn_of_def after_login_def after_relogin_def)
  have d': "data_fetch ?w (requests after_relogin) = Response 401 None" by (simp add: demo_world_def)
  have nok: "\<not> ok 401" by (simp add: ok_def)
  have c: "cachedToken retry_state = None" by (simp add: retry_state_def)
  note th = emdexRequest_retries_once [of ?w "''/api/v1/verify''" "[]" init_state "''tok1''"
      after_login None "''tok1''" after_relogin 401 None, unfolded sr]
  from th m u g d g' d' nok
  have "emdexRequest ?w ''/api/v1/verify'' [] False init_state =
           (Inl (EmdexError REQUEST_FAILED), after_relogin\<lparr>requests := Suc (requests after_relogin)\<rparr>)"
    by blast
  then have "emdexRequest ?w ''/api/v1/verify'' [] False init_state =
           (Inl (EmdexError REQUEST_FAILED), after_relogin\<lparr>requests := 2\<rparr>)"
    by (simp add: after_relogin_def)
  with m u g d c g' nok show ?thesis by blast
qed


subsection \<open>The cached request\<close>

lemma getTTL_state: "snd (getTTL key now c) = c"
  by (simp add: getTTL_def Let_def split: option.splits)

lemma cached_hit:
  assumes "truthy (fst (get (generateKey (''emdex'' @ replace_slashes endpoint) body)
                          (Date_now w s) (cache s)))"
  shows "cachedEmdexRequest w endpoint body ttlSeconds s =
     (let cacheKey = generateKey (''emdex'' @ replace_slashes endpoint) body;
          looked = get cacheKey (Date_now w s) (cache s);
          s1 = tick (s\<lparr>cache := snd looked\<rparr>)
      in (Inr (annotate (fst looked)
                 (cache_info True cacheKey (fst (getTTL cacheKey (Date_now w s1) (cache s1))))),
          tick s1))"
proof -
  show ?thesis
    using assms
    by (simp add: cachedEmdexRequest_def Let_def split_beta getTTL_state tick_def)
qed

lemma cached_miss:
  assumes "\<not> truthy (fst (get (generateKey (''emdex'' @ replace_slashes endpoint) body)
                          (Date_now w s) (cache s)))"
  shows "cachedEmdexRequest w endpoint body ttlSeconds s =
     (let cacheKey = generateKey (''emdex'' @ replace_slashes endpoint) body;
          looked = get cacheKey (Date_now w s) (cache s);
          s1 = tick (s\<lparr>cache := snd looked\<rparr>)
      in case emdexRequest w endpoint body False s1 of
           (Inl e, s2) \<Rightarrow> (Inl e, s2)
         | (Inr result, s2) \<Rightarrow>
             (Inr (annotate result (cache_info False cacheKey ttlSeconds)),
              if truthy result \<and> \<not> truthy (error_of result)
              then tick (s2\<lparr>cache := set_cache cacheKey result ttlSeconds (Date_now w s2) (cache s2)\<rparr>)
              else s2))"
  using assms
  by (simp add: cachedEmdexRequest_def Let_def split_beta split: sum.splits)

lemma set_cache_lookup:
  "map_of (store (set_cache key d ttlSeconds now c)) key =
     Some \<lparr>data = d, createdAt = now, expiresAt = now + ttlSeconds * 1000, ttl = ttlSeconds\<rparr>"
  by (simp add: set_cache_def Let_def update_conv')


text \<open>
  Claim C6, amended. With \<open>key\<close> the cache key of the endpoint and the parameters:
  \<^item> on a hit (\<open>cache.get(key)\<close> gives a truthy payload) the call returns that
    payload annotated with \<open>{hit: true, key, ttl: getTTL(key)}\<close> and sends neither a
    login nor a data request;
  \<^item> on a miss it calls \<open>emdexRequest\<close> with \<open>isRetry = false\<close> and returns the
    result annotated with \<open>{hit: false, key, ttl: ttlSeconds}\<close>; the result is stored
    under \<open>key\<close> with \<open>ttlSeconds\<close> if and only if it is truthy and its
    \<open>error\<close> property is absent or falsy, and otherwise the cache stays as the lookup
    left it;
  \<^item> an error of \<open>emdexRequest\<close> is the error of the call, and the cache stays as
    the lookup left it.
  Annotating an object keeps its properties and sets \<open>_cache\<close>.
\<close>
theorem cachedEmdexRequest_behaviour:
  fixes w endpoint body ttlSeconds s
  defines "cacheKey \<equiv> generateKey (''emdex'' @ replace_slashes endpoint) body"
  defines "looked \<equiv> get cacheKey (Date_now w s) (cache s)"
  defines "s1 \<equiv> tick (s\<lparr>cache := snd looked\<rparr>)"
  defines "out \<equiv> cachedEmdexRequest w endpoint body ttlSeconds s"
  shows
   "(truthy (fst looked) \<longrightarrow>
       out = (Inr (annotate (fst looked)
                     (cache_info True cacheKey (fst (getTTL cacheKey (Date_now w s1) (cache s1))))),
              tick s1) \<and>
       logins (snd out) = logins s \<and> requests (snd out) = requests s) \<and>
    (\<not> truthy (fst looked) \<and> emdexRequest w endpoint body False s1 = (Inr result, s2) \<longrightarrow>
       fst out = Inr (annotate result (cache_info False cacheKey ttlSeconds)) \<and>
       (truthy result \<and> \<not> truthy (error_of result) \<longrightarrow>
          snd out = tick (s2\<lparr>cache := set_cache cacheKey result ttlSeconds (Date_now w s2) (cache s2)\<rparr>) \<and>
          map_of (store (cache (snd out))) cacheKey =
            Some \<lparr>data = result, createdAt = Date_now w s2,
                  expiresAt = Date_now w s2 + ttlSeconds * 1000, ttl = ttlSeconds\<rparr>) \<and>
       (\<not> (truthy result \<and> \<not> truthy (error_of result)) \<longrightarrow>
          snd out = s2 \<and> cache (snd out) = snd looked)) \<and>
    (\<not> truthy (fst looked) \<and> emdexRequest w endpoint body False s1 = (Inl e, s2) \<longrightarrow>
       out = (Inl e, s2) \<and> cache (snd out) = snd looked) \<and>
    annotate (JObj ps) info = JObj (AList.update ''_cache'' info ps) \<and>
    map_of (AList.update ''_cache'' info ps) = (map_of ps)(''_cache'' \<mapsto> info)"
proof -
  have hit: "truthy (fst looked) \<longrightarrow>
       out = (Inr (annotate (fst looked)
                     (cache_info True cacheKey (fst (getTTL cacheKey (Date_now w s1) (cache s1))))),
              tick s1) \<and>
       logins (snd out) = logins s \<and> requests (snd out) = requests s"
    unfolding out_def s1_def looked_def cacheKey_def
    by (auto simp: cached_hit Let_def tick_def)
  have c1: "cache s1 = snd looked" by (simp add: s1_def tick_def)
  have fr: "cache (snd (emdexRequest w endpoint body False s1)) = snd looked"
    using emdexRequest_frame [of w endpoint body False s1] c1 by simp
  have miss: "\<not> truthy (fst looked) \<and> emdexRequest w endpoint body False s1 = (Inr result, s2) \<longrightarrow>
       fst out = Inr (annotate result (cache_info False cacheKey ttlSeconds)) \<and>
       (truthy result \<and> \<not> truthy (error_of result) \<longrightarrow>
          snd out = tick (s2\<lparr>cache := set_cache cacheKey result ttlSeconds (Date_now w s2) (cache s2)\<rparr>) \<and>
          map_of (store (cache (snd out))) cacheKey =
            Some \<lparr>data = result, createdAt = Date_now w s2,
                  expiresAt = Date_now w s2 + ttlSeconds * 1000, ttl = ttlSeconds\<rparr>) \<and>
       (\<not> (truthy result \<and> \<not> truthy (error_of result)) \<longrightarrow>
          snd out = s2 \<and> cache (snd out) = snd looked)"
  proof (intro impI, elim conjE)
    assume n: "\<not> truthy (fst looked)"
      and r: "emdexRequest w endpoint body False s1 = (Inr result, s2)"
    from fr r have c2: "cache s2 = snd looked" by simp
    have o: "out = (Inr (annotate result (cache_info False cacheKey ttlSeconds)),
              if truthy result \<and> \<not> truthy (error_of result)
              then tick (s2\<lparr>cache := set_cache cacheKey result ttlSeconds (Date_now w s2) (cache s2)\<rparr>)
              else s2)"
      using n r unfolding out_def s1_def looked_def cacheKey_def
      by (simp add: cached_miss Let_def)
    show "fst out = Inr (annotate result (cache_info False cacheKey ttlSeconds)) \<and>
       (truthy result \<and> \<not> truthy (error_of result) \<longrightarrow>
          snd out = tick (s2\<lparr>cache := set_cache cacheKey result ttlSeconds (Date_now w s2) (cache s2)\<rparr>) \<and>
          map_of (store (cache (snd out))) cacheKey =
            Some \<lparr>data = result, createdAt = Date_now w s2,
                  expiresAt = Date_now w s2 + ttlSeconds * 1000, ttl = ttlSeconds\<rparr>) \<and>
       (\<not> (truthy result \<and> \<not> truthy (error_of result)) \<longrightarrow>
          snd out = s2 \<and> cache (snd out) = snd looked)"
      unfolding o using c2 by (auto simp: set_cache_lookup tick_def)
  qed
  have err: "\<not> truthy (fst looked) \<and> emdexRequest w endpoint body False s1 = (Inl e, s2) \<longrightarrow>
       out = (Inl e, s2) \<and> cache (snd out) = snd looked"
  proof (intro impI, elim conjE)
    assume n: "\<not> truthy (fst looked)"
      and r: "emdexRequest w endpoint body False s1 = (Inl e, s2)"
    from fr r have c2: "cache s2 = snd looked" by simp
    have "out = (Inl e, s2)"
      using n r unfolding out_def s1_def looked_def cacheKey_def
      by (simp add: cached_miss Let_def)
    with c2 show "out = (Inl e, s2) \<and> cache (snd out) = snd looked" by simp
  qed
  have ann: "annotate (JObj ps) info = JObj (AList.update ''_cache'' info ps)"
    by (simp add: annotate_def)
  have upd: "map_of (AList.update ''_cache'' info ps) = (map_of ps)(''_cache'' \<mapsto> info)"
    by (rule update_conv')
  from hit miss err ann upd show ?thesis by blast
qed

lemma search_key_eq:
  "generateKey (''emdex'' @ replace_slashes ''/api/v1/brands/search'') [(''query'', JStr ''Panadol'')]
     = search_key"
  by (simp add: generateKey_def normalizedParts_def normalizedPart_def param_at_def
        trim_def toLowerCase_def lower_char_def upper_letters_def lower_letters_def is_space_def replace_slashes_def search_key_def)

text \<open>
  Claim C6 says that the result of a miss is stored if and only if it is a success with
  no \<open>error\<close> field. The code tests \<open>result && !result.error\<close>: a result whose
  \<open>error\<close> field is present and falsy is stored too. The answer
  \<open>{error: false, data: []}\<close> has an \<open>error\<close> field, and after the call the cache
  holds it under the key of the request.
\<close>
theorem cachedEmdexRequest_error_field_counterexample:
  "error_of flagged_result = JBool False \<and>
   map_of [(''error'', JBool False), (''data'', JArr [])] ''error'' \<noteq> None \<and>
   fst (cachedEmdexRequest (demo_world login_ok (Response 200 (Some flagged_result)))
          ''/api/v1/brands/search'' [(''query'', JStr ''Panadol'')] 3600 init_state) =
     Inr (annotate flagged_result (cache_info False search_key 3600)) \<and>
   map_of (store (cache (snd (cachedEmdexRequest
          (demo_world login_ok (Response 200 (Some flagged_result)))
          ''/api/v1/brands/search'' [(''query'', JStr ''Panadol'')] 3600 init_state)))) search_key =
     Some \<lparr>data = flagged_result, createdAt = 1000000, expiresAt = 4600000, ttl = 3600\<rparr>"
proof -
  let ?w = "demo_world login_ok (Response 200 (Some flagged_result))"
  let ?s1 = "tick (init_state\<lparr>cache := empty_cache\<lparr>misses := 1\<rparr>\<rparr>)"
  have l: "get search_key (Date_now ?w init_state) (cache init_state) = (JNull, empty_cache\<lparr>misses := 1\<rparr>)"
    by (simp add: get_def init_state_def empty_cache_def)
  have g: "getToken ?w ?s1 =
      (Inr ''tok1'', ?s1\<lparr>ticks := 2, logins := 1, tokenExpiresAt := Some 4600000, cachedToken := Some ''tok1''\<rparr>)"
    by (simp add: getToken_def Let_def valid_token_def init_state_def login_def login_ok_def
        demo_world_def truthy_str_def tick_def Date_now_def ok_def token_of_def
        expiresIn_of_def)
  have r: "emdexRequest ?w ''/api/v1/brands/search'' [(''query'', JStr ''Panadol'')] False ?s1 =
      (Inr flagged_result,
       ?s1\<lparr>ticks := 2, logins := 1, tokenExpiresAt := Some 4600000, cachedToken := Some ''tok1'',
            requests := 1\<rparr>)"
    by (subst emdexRequest.simps, subst g)
       (simp add: demo_world_def truthy_str_def ok_def Let_def tick_def init_state_def)
  show ?thesis
    unfolding cachedEmdexRequest_def search_key_eq Let_def l prod.case truthy.simps if_False r
    by (simp add: flagged_result_def set_cache_def cache_size_def MAX_CACHE_SIZE_def
        empty_cache_def tick_def init_state_def Date_now_def demo_world_def)
qed

text \<open>
  A first search misses, fetches the answer and caches it for an hour; the same search
  again is served from the cache, with the full hour remaining and no request sent. An
  answer that reports an error is returned and not cached.
\<close>
theorem cachedEmdexRequest_behaviour_witness:
  "\<not> truthy (fst (get search_key
        (Date_now (demo_world login_ok (Response 200 (Some plain_result))) init_state)
        (cache init_state))) \<and>
   cachedEmdexRequest (demo_world login_ok (Response 200 (Some plain_result)))
       ''/api/v1/brands/search'' [(''query'', JStr ''Panadol'')] 3600 init_state =
     (Inr (annotate plain_result (cache_info False search_key 3600)), warm_state) \<and>
   truthy (fst (get search_key
        (Date_now (demo_world login_ok (Response 200 (Some plain_result))) warm_state)
        (cache warm_state))) \<and>
   fst (cachedEmdexRequest (demo_world login_ok (Response 200 (Some plain_result)))
       ''/api/v1/brands/search'' [(''query'', JStr ''Panadol'')] 3600 warm_state) =
     Inr (annotate plain_result (cache_info True search_key 3600)) \<and>
   logins (snd (cachedEmdexRequest (demo_world login_ok (Response 200 (Some plain_result)))
       ''/api/v1/brands/search'' [(''query'', JStr ''Panadol'')] 3600 warm_state)) = logins warm_state \<and>
   requests (snd (cachedEmdexRequest (demo_world login_ok (Response 200 (Some plain_result)))
       ''/api/v1/brands/search'' [(''query'', JStr ''Panadol'')] 3600 warm_state)) = requests warm_state \<and>
   \<not> (truthy failed_result \<and> \<not> truthy (error_of failed_result)) \<and>
   fst (cachedEmdexRequest (demo_world login_ok (Response 200 (Some failed_result)))
       ''/api/v1/brands/search'' [(''query'', JStr ''Panadol'')] 3600 init_state) =
     Inr (annotate failed_result (cache_info False search_key 3600)) \<and>
   store (cache (snd (cachedEmdexRequest (demo_world login_ok (Response 200 (Some failed_result)))
       ''/api/v1/brands/search'' [(''query'', JStr ''Panadol'')] 3600 init_state))) = []"
proof -
  let ?w = "demo_world login_ok (Response 200 (Some plain_result))"
  let ?ep = "''/api/v1/brands/search''"
  let ?body = "[(''query'', JStr ''Panadol'')]"
  let ?key = "generateKey (''emdex'' @ replace_slashes ?ep) ?body"
  let ?s1 = "tick (init_state\<lparr>cache := empty_cache\<lparr>misses := 1\<rparr>\<rparr>)"
  let ?s2 = "?s1\<lparr>ticks := 2, logins := 1, tokenExpiresAt := Some 4600000,
                 cachedToken := Some ''tok1'', requests := 1\<rparr>"
  have l0: "get ?key (Date_now ?w init_state) (cache init_state) = (JNull, empty_cache\<lparr>misses := 1\<rparr>)"
    by (simp add: get_def init_state_def empty_cache_def)
  have g: "getToken ?w ?s1 =
      (Inr ''tok1'', ?s1\<lparr>ticks := 2, logins := 1, tokenExpiresAt := Some 4600000, cachedToken := Some ''tok1''\<rparr>)"
    by (simp add: getToken_def Let_def valid_token_def init_state_def login_def login_ok_def
        demo_world_def truthy_str_def tick_def Date_now_def ok_def token_of_def
        expiresIn_of_def)
  have r: "emdexRequest ?w ?ep ?body False ?s1 = (Inr plain_result, ?s2)"
    by (subst emdexRequest.simps, subst g)
       (simp add: demo_world_def truthy_str_def ok_def Let_def tick_def init_state_def)
  have t: "truthy plain_result \<and> \<not> truthy (error_of plain_result)"
    by (simp add: plain_result_def)
  have n0: "\<not> truthy (fst (get ?key (Date_now ?w init_state) (cache init_state)))"
    unfolding l0 by simp
  note th0 = cachedEmdexRequest_behaviour [where w = ?w and endpoint = ?ep and body = ?body
      and ttlSeconds = 3600 and s = init_state and result = plain_result and ?s2.0 = ?s2]
  have r': "emdexRequest ?w ?ep ?body False
      (tick (init_state\<lparr>cache := snd (get ?key (Date_now ?w init_state) (cache init_state))\<rparr>))
      = (Inr plain_result, ?s2)"
    unfolding l0 snd_conv by (rule r)
  from th0 n0 r' t
  have m: "fst (cachedEmdexRequest ?w ?ep ?body 3600 init_state) =
        Inr (annotate plain_result (cache_info False ?key 3600)) \<and>
      snd (cachedEmdexRequest ?w ?ep ?body 3600 init_state) =
        tick (?s2\<lparr>cache := set_cache ?key plain_result 3600 (Date_now ?w ?s2) (cache ?s2)\<rparr>)"
    by blast
  have w: "tick (?s2\<lparr>cache := set_cache ?key plain_result 3600 (Date_now ?w ?s2) (cache ?s2)\<rparr>)
        = warm_state"
    unfolding search_key_eq
    by (simp add: warm_state_def set_cache_def cache_size_def MAX_CACHE_SIZE_def
        empty_cache_def tick_def init_state_def Date_now_def demo_world_def)
  have first: "cachedEmdexRequest ?w ?ep ?body 3600 init_state =
     (Inr (annotate plain_result (cache_info False search_key 3600)), warm_state)"
  proof (rule prod_eqI)
    show "fst (cachedEmdexRequest ?w ?ep ?body 3600 init_state) =
        fst (Inr (annotate plain_result (cache_info False search_key 3600)) :: error + jsval, warm_state)"
      using m unfolding search_key_eq fst_conv by (rule conjunct1)
    show "snd (cachedEmdexRequest ?w ?ep ?body 3600 init_state) =
        snd (Inr (annotate plain_result (cache_info False search_key 3600)) :: error + jsval, warm_state)"
      using m unfolding w snd_conv by (rule conjunct2)
  qed
  have l1: "get ?key (Date_now ?w warm_state) (cache warm_state) =
      (plain_result, (cache warm_state)\<lparr>hits := 1\<rparr>)"
    unfolding search_key_eq
    by (simp add: get_def warm_state_def Date_now_def demo_world_def)
  have h1: "truthy (fst (get ?key (Date_now ?w warm_state) (cache warm_state)))"
    unfolding l1 by (simp add: plain_result_def)
  note th1 = cachedEmdexRequest_behaviour [where w = ?w and endpoint = ?ep and body = ?body
      and ttlSeconds = 3600 and s = warm_state]
  from th1 h1
  have hit: "cachedEmdexRequest ?w ?ep ?body 3600 warm_state =
      (Inr (annotate (fst (get ?key (Date_now ?w warm_state) (cache warm_state)))
         (cache_info True ?key
           (fst (getTTL ?key
              (Date_now ?w (tick (warm_state\<lparr>cache := snd (get ?key (Date_now ?w warm_state) (cache warm_state))\<rparr>)))
              (cache (tick (warm_state\<lparr>cache := snd (get ?key (Date_now ?w warm_state) (cache warm_state))\<rparr>))))))),
       tick (tick (warm_state\<lparr>cache := snd (get ?key (Date_now ?w warm_state) (cache warm_state))\<rparr>))) \<and>
      logins (snd (cachedEmdexRequest ?w ?ep ?body 3600 warm_state)) = logins warm_state \<and>
      requests (snd (cachedEmdexRequest ?w ?ep ?body 3600 warm_state)) = requests warm_state"
    by blast
  have ttl: "fst (getTTL search_key 1000000 ((cache warm_state)\<lparr>hits := h\<rparr>)) = 3600" for h
    by (simp add: getTTL_def warm_state_def ceil_div_def)
  have second: "fst (cachedEmdexRequest ?w ?ep ?body 3600 warm_state) =
     Inr (annotate plain_result (cache_info True search_key 3600))"
    using hit unfolding l1 unfolding search_key_eq
    by (simp add: tick_def Date_now_def demo_world_def ttl)
  let ?v = "demo_world login_ok (Response 200 (Some failed_result))"
  have k0: "get ?key (Date_now ?v init_state) (cache init_state) = (JNull, empty_cache\<lparr>misses := 1\<rparr>)"
    by (simp add: get_def init_state_def empty_cache_def)
  have gv: "getToken ?v ?s1 =
      (Inr ''tok1'', ?s1\<lparr>ticks := 2, logins := 1, tokenExpiresAt := Some 4600000, cachedToken := Some ''tok1''\<rparr>)"
    by (simp add: getToken_def Let_def valid_token_def init_state_def login_def login_ok_def
        demo_world_def truthy_str_def tick_def Date_now_def ok_def token_of_def
        expiresIn_of_def)
  have rv: "emdexRequest ?v ?ep ?body False ?s1 = (Inr failed_result, ?s2)"
    by (subst emdexRequest.simps, subst gv)
       (simp add: demo_world_def truthy_str_def ok_def Let_def tick_def init_state_def)
  have rv': "emdexRequest ?v ?ep ?body False
      (tick (init_state\<lparr>cache := snd (get ?key (Date_now ?v init_state) (cache init_state))\<rparr>))
      = (Inr failed_result, ?s2)"
    unfolding k0 snd_conv by (rule rv)
  have tv: "\<not> (truthy failed_result \<and> \<not> truthy (error_of failed_result))"
    by (simp add: failed_result_def)
  have nv: "\<not> truthy (fst (get ?key (Date_now ?v init_state) (cache init_state)))"
    unfolding k0 by simp
  note th2 = cachedEmdexRequest_behaviour [where w = ?v and endpoint = ?ep and body = ?body
      and ttlSeconds = 3600 and s = init_state and result = failed_result and ?s2.0 = ?s2]
  from th2 nv rv' tv
  have mv: "fst (cachedEmdexRequest ?v ?ep ?body 3600 init_state) =
        Inr (annotate failed_result (cache_info False ?key 3600)) \<and>
      cache (snd (cachedEmdexRequest ?v ?ep ?body 3600 init_state)) =
        snd (get ?key (Date_now ?v init_state) (cache init_state))"
    by blast
  then have ev: "store (cache (snd (cachedEmdexRequest ?v ?ep ?body 3600 init_state))) = []"
    unfolding k0 by (simp add: empty_cache_def)
  from mv have fv: "fst (cachedEmdexRequest ?v ?ep ?body 3600 init_state) =
        Inr (annotate failed_result (cache_info False ?key 3600))"
    by (rule conjunct1)
  from n0 first h1 second hit tv fv ev show ?thesis
    unfolding search_key_eq by blast
qed

end
